theory Spec2Isabelle
  imports Complex_Main "HOL-Library.Signed_Division" "HOL-Library.Sublist"
begin

section \<open>The kNN coordinator of classifier.c\<close>

text \<open>
  The theory embeds \<^verbatim>\<open>main\<close> of \<^verbatim>\<open>src/classifier.c\<close>: option handling, metric
  selection, dataset loading, the dispatch loop that plans and sends the partitions, the
  collection loop, the wait loop and the final report.

  Conventions of the embedding.
  \<^item> A C \<^verbatim>\<open>int\<close> is a HOL \<open>int\<close>. Signed overflow is undefined in C and lies outside the
    model: all values are taken to stay in the range of \<^verbatim>\<open>int\<close>.
  \<^item> A C string is a \<open>string\<close> without the terminating NUL; a \<^verbatim>\<open>char *\<close> that may be
    \<^verbatim>\<open>NULL\<close> is a \<open>string option\<close>.
  \<^item> A \<^verbatim>\<open>double\<close> is a \<open>real\<close>. The only floating-point expression of the file is
    \<^verbatim>\<open>(double)a / b\<close> under \<^verbatim>\<open>ceil\<close> and \<^verbatim>\<open>floor\<close>, for two \<^verbatim>\<open>int\<close> values; the
    correctly rounded quotient of two such values has the floor and the ceiling of the
    exact quotient (lemma \<open>rounded_quotient\<close>).
  \<^item> Everything the process does to the outside (output, loading, system calls) is an
    \<open>event\<close> of its trace; what the outside answers is read from an \<open>env\<close>.
  \<^item> \<^verbatim>\<open>exit\<close>, undefined behaviour and not returning are values of \<open>outcome\<close>.
\<close>

subsection \<open>Library functions of C\<close>

text \<open>\<^verbatim>\<open>strncmp(s1, s2, n)\<close>: compares at most \<open>n\<close> characters as unsigned bytes; the end
  of a string is its NUL, which compares as 0.\<close>

fun strncmp :: "string \<Rightarrow> string \<Rightarrow> nat \<Rightarrow> int" where
  "strncmp s1 s2 0 = 0"
| "strncmp [] [] (Suc n) = 0"
| "strncmp [] (d # ds) (Suc n) = 0 - of_char d"
| "strncmp (c # cs) [] (Suc n) = of_char c - 0"
| "strncmp (c # cs) (d # ds) (Suc n) =
     (if c = d then strncmp cs ds n else of_char c - of_char d)"

definition strlen :: "string \<Rightarrow> nat" where
  "strlen s = length s"

text \<open>A well-formed C string holds no NUL character.\<close>

definition cstring :: "string \<Rightarrow> bool" where
  "cstring s = (CHR 0x00 \<notin> set s)"

definition isspace :: "char \<Rightarrow> bool" where
  "isspace c = (c \<in> {CHR '' '', CHR 0x09, CHR 0x0A, CHR 0x0B, CHR 0x0C, CHR 0x0D})"

definition isdigit :: "char \<Rightarrow> bool" where
  "isdigit c = ((48::nat) \<le> of_char c \<and> of_char c \<le> (57::nat))"

fun digits_value :: "int \<Rightarrow> string \<Rightarrow> int" where
  "digits_value acc [] = acc"
| "digits_value acc (c # cs) =
     (if isdigit c then digits_value (acc * 10 + (of_char c - 48)) cs else acc)"

text \<open>\<^verbatim>\<open>atoi\<close>: leading white space, an optional sign, then the longest run of decimal
  digits; 0 when there is none.\<close>

definition atoi :: "string \<Rightarrow> int" where
  "atoi s =
     (case dropWhile isspace s of
        [] \<Rightarrow> 0
      | c # cs \<Rightarrow>
          if c = CHR ''-'' then - digits_value 0 cs
          else if c = CHR ''+'' then digits_value 0 cs
          else digits_value 0 (c # cs))"

text \<open>\<^verbatim>\<open>printf("%d", i)\<close>.\<close>

fun show_nat :: "nat \<Rightarrow> string" where
  "show_nat n =
     (if n < 10 then [''0123456789'' ! n]
      else show_nat (n div 10) @ [''0123456789'' ! (n mod 10)])"

declare show_nat.simps [simp del]

definition show_int :: "int \<Rightarrow> string" where
  "show_int i = (if i < 0 then CHR ''-'' # show_nat (nat (- i)) else show_nat (nat i))"

text \<open>\<^verbatim>\<open>printf("%s", p)\<close>; the C library in use prints a null pointer as \<^verbatim>\<open>(null)\<close>.\<close>

definition show_str :: "string option \<Rightarrow> string" where
  "show_str p = (case p of None \<Rightarrow> ''(null)'' | Some s \<Rightarrow> s)"

text \<open>The \<^verbatim>\<open>%\<close> of C truncates towards zero (\<open>smod\<close>); a zero divisor is undefined
  behaviour.\<close>

datatype undefined_behaviour = DivisionByZero | ArraySize

definition c_mod :: "int \<Rightarrow> int \<Rightarrow> undefined_behaviour + int" where
  "c_mod a b = (if b = 0 then Inl DivisionByZero else Inr (a smod b))"

subsection \<open>Data, events and outcomes\<close>

text \<open>The declaration of \<^verbatim>\<open>Dataset\<close> is in \<^verbatim>\<open>knn.h\<close>, which is not among the sources.
  \<^verbatim>\<open>main\<close> reads one field of it, \<^verbatim>\<open>testing->num_items\<close>, and the record keeps that
  field.\<close>

record dataset =
  num_items :: int

datatype metric = distance_euclidean | distance_cosine

record config =
  K :: int
  dist_metric :: string
  num_procs :: int
  verbose :: int

datatype pipe_id = c_to_p nat | p_to_c nat

datatype pipe_end = ReadEnd | WriteEnd

datatype wstatus = Exited int | Signaled int

datatype event =
    Stdout string
  | Stderr string
  | Perror string
  | LoadDataset "string option"
  | Pipe pipe_id
  | Write pipe_id int
  | Close pipe_id pipe_end
  | Fork nat
  | ChildHandler nat int
  | Read nat
  | Wait
  | FreeDataset

datatype outcome = Exit int | Undefined undefined_behaviour | OutOfFuel

text \<open>What the outside answers. \<open>read_ret env i j\<close> is the \<open>j\<close>-th \<^verbatim>\<open>read\<close> on worker
  \<open>i\<close>'s result pipe: the value returned and the value then held by \<^verbatim>\<open>count\<close>.
  \<open>wait_ret env i\<close> is the \<open>i\<close>-th \<^verbatim>\<open>wait\<close>: the value returned and the status stored.
  \<open>child_handler_exit env i\<close> is \<open>Some c\<close> when \<^verbatim>\<open>child_handler\<close> (of \<^verbatim>\<open>knn.c\<close>, not among
  the sources) ends the child with \<^verbatim>\<open>exit(c)\<close>, \<open>None\<close> when it returns.\<close>

record env =
  load_dataset :: "string option \<Rightarrow> dataset option"
  pipe_ret :: "pipe_id \<Rightarrow> int"
  write_ret :: "pipe_id \<Rightarrow> nat \<Rightarrow> int"
  close_ret :: "pipe_id \<Rightarrow> pipe_end \<Rightarrow> int"
  fork_ret :: "nat \<Rightarrow> int"
  read_ret :: "nat \<Rightarrow> nat \<Rightarrow> int \<times> int"
  wait_ret :: "nat \<Rightarrow> int \<times> wstatus"
  child_handler_exit :: "nat \<Rightarrow> int option"

text \<open>A step of the process: the events it adds, and either the outcome that ends the
  process (\<open>Inl\<close>) or the value it goes on with (\<open>Inr\<close>).\<close>

type_synonym 'a step = "event list \<times> (outcome + 'a)"

definition ret :: "'a \<Rightarrow> 'a step" where
  "ret a = ([], Inr a)"

definition seq :: "'a step \<Rightarrow> ('a \<Rightarrow> 'b step) \<Rightarrow> 'b step" where
  "seq m f =
     (case m of
        (tr, Inl out) \<Rightarrow> (tr, Inl out)
      | (tr, Inr a) \<Rightarrow> (case f a of (tr', r) \<Rightarrow> (tr @ tr', r)))"

text \<open>A system call checked the way the file checks them all: on failure
  \<^verbatim>\<open>perror(name); exit(1);\<close>.\<close>

definition checked :: "event \<Rightarrow> bool \<Rightarrow> string \<Rightarrow> unit step" where
  "checked e failed name =
     (if failed then ([e, Perror name], Inl (Exit 1)) else ([e], Inr ()))"

definition sizeof_int :: int where
  "sizeof_int = 4"

subsection \<open>Options and metric (lines 42 to 103)\<close>

definition usage :: "string \<Rightarrow> event" where
  "usage name =
     Stderr (''Usage: '' @ name @
       '' -v -K <num> -d <distance metric> -p <num_procs> training_list testing_list\<newline>'')"

definition default_config :: config where
  "default_config = \<lparr>K = 1, dist_metric = ''euclidean'', num_procs = 1, verbose = 0\<rparr>"

text \<open>The \<^verbatim>\<open>getopt\<close> loop. Its input is what the successive calls of \<^verbatim>\<open>getopt\<close> return
  before \<open>-1\<close>: the option character and \<^verbatim>\<open>optarg\<close>. Any character other than the four
  options (\<^verbatim>\<open>getopt\<close> answers \<^verbatim>\<open>?\<close> for an unknown option or a missing argument) takes the
  default branch. What \<^verbatim>\<open>getopt\<close> itself prints on the error stream in that case is
  not an event of \<^verbatim>\<open>main\<close>.\<close>

fun getopt_loop :: "string \<Rightarrow> config \<Rightarrow> (char \<times> string) list \<Rightarrow> config step" where
  "getopt_loop name cfg [] = ret cfg"
| "getopt_loop name cfg ((opt, optarg) # opts) =
     (if opt = CHR ''v'' then getopt_loop name (cfg\<lparr>verbose := 1\<rparr>) opts
      else if opt = CHR ''K'' then getopt_loop name (cfg\<lparr>K := atoi optarg\<rparr>) opts
      else if opt = CHR ''d'' then getopt_loop name (cfg\<lparr>dist_metric := optarg\<rparr>) opts
      else if opt = CHR ''p'' then getopt_loop name (cfg\<lparr>num_procs := atoi optarg\<rparr>) opts
      else ([usage name], Inl (Exit 1)))"

text \<open>The option characters of the string \<^verbatim>\<open>"vK:d:p:"\<close>.\<close>

definition known_option :: "char \<Rightarrow> bool" where
  "known_option c = (c = CHR ''v'' \<or> c = CHR ''K'' \<or> c = CHR ''d'' \<or> c = CHR ''p'')"

definition select_metric :: "string \<Rightarrow> metric step" where
  "select_metric d =
     (if strncmp d ''euclidean'' (strlen d) = 0 then ret distance_euclidean
      else if strncmp d ''cosine'' (strlen d) = 0 then ret distance_cosine
      else ([Stderr (''Expected any initial substring of '' @ [CHR 0x22] @ ''euclidean'' @
               [CHR 0x22] @ '' or '' @ [CHR 0x22] @ ''cosine'' @ [CHR 0x22] @
               '' as argument for -d\<newline>'')],
            Inl (Exit 1)))"

definition load :: "env \<Rightarrow> string option \<Rightarrow> dataset step" where
  "load env file =
     (case load_dataset env file of
        None \<Rightarrow>
          ([LoadDataset file,
            Stderr (''The data set in '' @ show_str file @ '' could not be loaded\<newline>'')],
           Inl (Exit 1))
      | Some d \<Rightarrow> ([LoadDataset file], Inr d))"

definition when_verbose :: "config \<Rightarrow> event \<Rightarrow> unit step" where
  "when_verbose cfg e = (if verbose cfg \<noteq> 0 then ([e], Inr ()) else ret ())"

subsection \<open>Planning and dispatch (lines 131 to 220)\<close>

text \<open>\<^verbatim>\<open>int from_children[num_procs * 2]\<close>: the size of a variable-length array must be
  positive, anything else is undefined behaviour. The result is the array's length.\<close>

definition from_children_len :: "int \<Rightarrow> undefined_behaviour + int" where
  "from_children_len p = (if p * 2 \<le> 0 then Inl ArraySize else Inr (p * 2))"

text \<open>Lines 139 to 143: the number of items of worker \<open>i\<close>.\<close>

definition partition_N :: "int \<Rightarrow> int \<Rightarrow> int \<Rightarrow> int \<Rightarrow> int" where
  "partition_N T p boundary i =
     (if i < boundary then \<lceil>real_of_int T / real_of_int p\<rceil>
      else \<lfloor>real_of_int T / real_of_int p\<rfloor>)"

text \<open>Lines 174 to 201: what the child created in iteration \<open>i\<close> does.\<close>

definition child_branch :: "env \<Rightarrow> nat \<Rightarrow> int \<Rightarrow> int step" where
  "child_branch env i K_val =
     seq (checked (Close (c_to_p i) ReadEnd) (close_ret env (c_to_p i) ReadEnd < 0) ''close'')
       (\<lambda>_.
     seq (case child_handler_exit env i of
            None \<Rightarrow> ([ChildHandler i K_val], Inr ())
          | Some c \<Rightarrow> ([ChildHandler i K_val], Inl (Exit c)))
       (\<lambda>_.
     seq (checked (Close (p_to_c i) ReadEnd) (close_ret env (p_to_c i) ReadEnd < 0) ''close'')
       (\<lambda>_.
     seq (checked (Close (c_to_p i) WriteEnd) (close_ret env (c_to_p i) WriteEnd < 0) ''close'')
       (\<lambda>_. ([FreeDataset, FreeDataset], Inl (Exit 0))))))"

text \<open>One iteration of the loop of lines 137 to 220; the result is the next
  \<^verbatim>\<open>start_idx\<close>.\<close>

definition dispatch_one :: "env \<Rightarrow> config \<Rightarrow> int \<Rightarrow> int \<Rightarrow> nat \<Rightarrow> int \<Rightarrow> int step" where
  "dispatch_one env cfg T boundary i start_idx =
     (let N = partition_N T (num_procs cfg) boundary (int i) in
      seq (checked (Pipe (c_to_p i)) (pipe_ret env (c_to_p i) = - 1) ''pipe'') (\<lambda>_.
      seq (checked (Pipe (p_to_c i)) (pipe_ret env (p_to_c i) = - 1) ''pipe'') (\<lambda>_.
      seq (checked (Write (p_to_c i) start_idx) (write_ret env (p_to_c i) 0 = - 1) ''write'')
        (\<lambda>_.
      seq (checked (Write (p_to_c i) N) (write_ret env (p_to_c i) 1 = - 1) ''write'') (\<lambda>_.
      seq (checked (Close (p_to_c i) WriteEnd) (close_ret env (p_to_c i) WriteEnd < 0) ''close'')
        (\<lambda>_.
      seq ([Fork i], Inr (fork_ret env i)) (\<lambda>k.
        if k = 0 then child_branch env i (K cfg)
        else if k < 0 then ([Perror ''fork''], Inl (Exit 1))
        else
          seq (checked (Close (p_to_c i) ReadEnd) (close_ret env (p_to_c i) ReadEnd < 0)
                 ''close'') (\<lambda>_.
          seq (checked (Close (c_to_p i) WriteEnd) (close_ret env (c_to_p i) WriteEnd < 0)
                 ''close'') (\<lambda>_.
          ret (start_idx + N))))))))))"

function dispatch_loop :: "env \<Rightarrow> config \<Rightarrow> int \<Rightarrow> int \<Rightarrow> nat \<Rightarrow> int \<Rightarrow> int step" where
  "dispatch_loop env cfg T boundary i start_idx =
     (if int i < num_procs cfg then
        seq (dispatch_one env cfg T boundary i start_idx)
          (\<lambda>start_idx'. dispatch_loop env cfg T boundary (Suc i) start_idx')
      else ret start_idx)"
  by pat_completeness auto
termination
  by (relation "measure (\<lambda>(env, cfg, T, boundary, i, start_idx). nat (num_procs cfg) - i)") auto

declare dispatch_loop.simps [simp del]

subsection \<open>Collection and waiting (lines 224 to 266)\<close>

text \<open>The loop of lines 230 to 239 on worker \<open>i\<close>'s result pipe, from its \<open>j\<close>-th
  \<^verbatim>\<open>read\<close> on. The loop has no bound of its own: the first argument is the number of
  iterations allowed, and \<open>OutOfFuel\<close> says that they did not suffice.\<close>

fun read_loop :: "nat \<Rightarrow> env \<Rightarrow> nat \<Rightarrow> nat \<Rightarrow> int step" where
  "read_loop 0 env i j = ([], Inl OutOfFuel)"
| "read_loop (Suc fuel) env i j =
     (case read_ret env i j of
        (num_read, count) \<Rightarrow>
          if num_read = sizeof_int then ([Read i], Inr count)
          else if num_read = - 1 then ([Read i, Perror ''read''], Inl (Exit 1))
          else seq ([Read i], Inr ()) (\<lambda>_. read_loop fuel env i (Suc j)))"

function collect_loop :: "nat \<Rightarrow> env \<Rightarrow> config \<Rightarrow> nat \<Rightarrow> int \<Rightarrow> int step" where
  "collect_loop fuel env cfg i total_correct =
     (if int i < num_procs cfg then
        seq (read_loop fuel env i 0) (\<lambda>count.
        seq (checked (Close (c_to_p i) ReadEnd) (close_ret env (c_to_p i) ReadEnd < 0) ''close'')
          (\<lambda>_. collect_loop fuel env cfg (Suc i) (total_correct + count)))
      else ret total_correct)"
  by pat_completeness auto
termination
  by (relation "measure (\<lambda>(fuel, env, cfg, i, total_correct). nat (num_procs cfg) - i)") auto

declare collect_loop.simps [simp del]

text \<open>One iteration of the loop of lines 253 to 266, on the \<open>i\<close>-th \<^verbatim>\<open>wait\<close>.\<close>

definition wait_one :: "env \<Rightarrow> nat \<Rightarrow> unit step" where
  "wait_one env i =
     (case wait_ret env i of
        (r, status) \<Rightarrow>
          if r < 0 then ([Wait, Perror ''wait''], Inl (Exit 1))
          else
            (case status of
               Exited code \<Rightarrow>
                 if code = 1 then
                   ([Wait, Stderr ''Problem with reading or writing in children processes''],
                    Inl (Exit 1))
                 else ([Wait], Inr ())
             | Signaled sig \<Rightarrow> ([Wait], Inr ())))"

function wait_loop :: "env \<Rightarrow> config \<Rightarrow> nat \<Rightarrow> unit step" where
  "wait_loop env cfg i =
     (if int i < num_procs cfg then
        seq (wait_one env i) (\<lambda>_. wait_loop env cfg (Suc i))
      else ret ())"
  by pat_completeness auto
termination
  by (relation "measure (\<lambda>(env, cfg, i). nat (num_procs cfg) - i)") auto

declare wait_loop.simps [simp del]

subsection \<open>The coordinator and \<^verbatim>\<open>main\<close>\<close>

text \<open>Lines 131 to 220: the array of result pipes, \<^verbatim>\<open>boundary\<close>, and the dispatch loop
  from \<^verbatim>\<open>start_idx = 0\<close>.\<close>

definition dispatch_phase :: "env \<Rightarrow> config \<Rightarrow> dataset \<Rightarrow> int step" where
  "dispatch_phase env cfg testing =
     seq (case from_children_len (num_procs cfg) of
            Inl ub \<Rightarrow> ([], Inl (Undefined ub)) | Inr n \<Rightarrow> ret n) (\<lambda>_.
     seq (case c_mod (num_items testing) (num_procs cfg) of
            Inl ub \<Rightarrow> ([], Inl (Undefined ub)) | Inr b \<Rightarrow> ret b) (\<lambda>boundary.
     dispatch_loop env cfg (num_items testing) boundary 0 0))"

text \<open>Lines 222 to 284: collection, waiting and the report; then lines 123 to 284 as a
  whole, once both datasets are loaded.\<close>

definition collect_and_report :: "nat \<Rightarrow> env \<Rightarrow> config \<Rightarrow> int step" where
  "collect_and_report fuel env cfg =
     seq (collect_loop fuel env cfg 0 0) (\<lambda>total_correct.
     seq (when_verbose cfg (Stdout ''- Waiting for children...\<newline>'')) (\<lambda>_.
     seq (wait_loop env cfg 0) (\<lambda>_.
     seq (when_verbose cfg
            (Stdout (''Number of correct predictions: '' @ show_int total_correct @
               ''\<newline>''))) (\<lambda>_.
     seq ([Stdout (show_int total_correct @ ''\<newline>'')], Inr ()) (\<lambda>_.
     seq ([FreeDataset, FreeDataset], Inr ()) (\<lambda>_.
     ret 0))))))"

definition coordinate :: "nat \<Rightarrow> env \<Rightarrow> config \<Rightarrow> dataset \<Rightarrow> int step" where
  "coordinate fuel env cfg testing =
     seq (when_verbose cfg (Stdout ''- Creating children ...\<newline>'')) (\<lambda>_.
     seq (dispatch_phase env cfg testing) (\<lambda>_.
     collect_and_report fuel env cfg))"

text \<open>\<^verbatim>\<open>argv[optind]\<close> and \<^verbatim>\<open>argv[optind + 1]\<close>, where \<open>args\<close> are the arguments from
  \<^verbatim>\<open>optind\<close> on; \<^verbatim>\<open>argv[argc]\<close> is a null pointer.\<close>

definition argv_at :: "string list \<Rightarrow> nat \<Rightarrow> string option" where
  "argv_at args n = (if n < length args then Some (args ! n) else None)"

text \<open>\<^verbatim>\<open>main\<close>: \<open>name\<close> is \<^verbatim>\<open>argv[0]\<close>, \<open>opts\<close> what \<^verbatim>\<open>getopt\<close> returns, \<open>args\<close> the
  arguments left from \<^verbatim>\<open>optind\<close> on. The result is the trace and how the process ends.\<close>

definition main_steps :: "nat \<Rightarrow> env \<Rightarrow> string \<Rightarrow> (char \<times> string) list \<Rightarrow> string list \<Rightarrow> int step"
  where
  "main_steps fuel env name opts args =
     seq (getopt_loop name default_config opts) (\<lambda>cfg.
     seq (if args = [] then
            ([Stderr ''Expecting training images file and test images file\<newline>''],
             Inl (Exit 1))
          else ret ()) (\<lambda>_.
     seq (select_metric (dist_metric cfg)) (\<lambda>metric.
     seq (when_verbose cfg (Stderr ''- Loading datasets...\<newline>'')) (\<lambda>_.
     seq (load env (argv_at args 0)) (\<lambda>training.
     seq (load env (argv_at args 1)) (\<lambda>testing.
     coordinate fuel env cfg testing))))))"

definition main :: "nat \<Rightarrow> env \<Rightarrow> string \<Rightarrow> (char \<times> string) list \<Rightarrow> string list \<Rightarrow>
    event list \<times> outcome" where
  "main fuel env name opts args =
     (case main_steps fuel env name opts args of
        (tr, Inl out) \<Rightarrow> (tr, out)
      | (tr, Inr status) \<Rightarrow> (tr, Exit status))"

subsection \<open>Reading a trace\<close>

fun stdout_of :: "event list \<Rightarrow> string list" where
  "stdout_of [] = []"
| "stdout_of (Stdout s # es) = s # stdout_of es"
| "stdout_of (e # es) = stdout_of es"

fun is_write :: "event \<Rightarrow> bool" where
  "is_write (Write pid v) = True"
| "is_write e = False"

fun is_read :: "event \<Rightarrow> bool" where
  "is_read (Read i) = True"
| "is_read e = False"

fun is_fork :: "event \<Rightarrow> bool" where
  "is_fork (Fork i) = True"
| "is_fork e = False"

fun is_load :: "event \<Rightarrow> bool" where
  "is_load (LoadDataset f) = True"
| "is_load e = False"

text \<open>The events of the three loops.\<close>

fun dispatch_event :: "event \<Rightarrow> bool" where
  "dispatch_event (Stdout s) = False"
| "dispatch_event (Stderr s) = False"
| "dispatch_event (LoadDataset f) = False"
| "dispatch_event (Read i) = False"
| "dispatch_event Wait = False"
| "dispatch_event e = True"

fun collect_event :: "event \<Rightarrow> bool" where
  "collect_event (Read i) = True"
| "collect_event (Close pid e) = True"
| "collect_event (Perror s) = True"
| "collect_event e = False"

fun wait_event :: "event \<Rightarrow> bool" where
  "wait_event Wait = True"
| "wait_event (Perror s) = True"
| "wait_event (Stderr s) = True"
| "wait_event e = False"

text \<open>The integers written into a pipe, in order.\<close>

fun written_to :: "pipe_id \<Rightarrow> event list \<Rightarrow> int list" where
  "written_to pid [] = []"
| "written_to pid (Write pid' v # es) =
     (if pid' = pid then v # written_to pid es else written_to pid es)"
| "written_to pid (e # es) = written_to pid es"

subsection \<open>The plan in the words of the specification\<close>

text \<open>With \<open>base = T div p\<close> and \<open>remainder = T mod p\<close>, the first \<open>remainder\<close>
  partitions hold \<open>base + 1\<close> items and the others \<open>base\<close>; the start indices accumulate
  from 0.\<close>

definition spec_len :: "int \<Rightarrow> int \<Rightarrow> nat \<Rightarrow> int" where
  "spec_len T p i = (if int i < T mod p then T div p + 1 else T div p)"

definition spec_start :: "int \<Rightarrow> int \<Rightarrow> nat \<Rightarrow> int" where
  "spec_start T p i = (\<Sum>j<i. spec_len T p j)"

text \<open>The plan as the loop computes it, for any \<open>T\<close> and \<open>p\<close>.\<close>

definition planned_N :: "config \<Rightarrow> int \<Rightarrow> nat \<Rightarrow> int" where
  "planned_N cfg T i =
     partition_N T (num_procs cfg) (T smod num_procs cfg) (int i)"

definition planned_start :: "config \<Rightarrow> int \<Rightarrow> nat \<Rightarrow> int" where
  "planned_start cfg T i = (\<Sum>j<i. planned_N cfg T j)"

subsection \<open>What a result pipe can do\<close>




subsection \<open>An environment for examples\<close>

text \<open>Two loadable files, \<^verbatim>\<open>train\<close> with 3 items and \<^verbatim>\<open>test\<close> with 7; every system
  call of the dispatch succeeds; \<open>rd\<close> gives the reads and \<open>sts\<close> the statuses reaped.\<close>

definition example_env :: "(nat \<Rightarrow> nat \<Rightarrow> int \<times> int) \<Rightarrow> (nat \<Rightarrow> int \<times> wstatus) \<Rightarrow> env" where
  "example_env rd sts =
     \<lparr>load_dataset =
        (\<lambda>f. if f = Some ''train'' then Some \<lparr>num_items = 3\<rparr>
             else if f = Some ''test'' then Some \<lparr>num_items = 7\<rparr> else None),
      pipe_ret = (\<lambda>_. 0), write_ret = (\<lambda>_ _. 4), close_ret = (\<lambda>_ _. 0),
      fork_ret = (\<lambda>i. 100 + int i), read_ret = rd, wait_ret = sts,
      child_handler_exit = (\<lambda>_. None)\<rparr>"

section \<open>Properties\<close>

subsection \<open>Sequencing\<close>

lemma seq_Inl [simp]: "seq (tr, Inl out) f = (tr, Inl out)"
  by (simp add: seq_def)

lemma seq_Inr [simp]: "seq (tr, Inr a) f = (tr @ fst (f a), snd (f a))"
  by (simp add: seq_def split: prod.splits)

lemma seq_ret [simp]: "seq (ret a) f = f a"
  by (simp add: ret_def)

subsection \<open>Metric selection\<close>

lemma strncmp_prefix:
  "cstring s \<Longrightarrow> (strncmp s t (strlen s) = 0) = prefix s t"
proof (induction s arbitrary: t)
  case Nil
  then show ?case by (simp add: strlen_def)
next
  case (Cons c cs)
  then have c0: "c \<noteq> CHR 0x00" and cs: "cstring cs"
    by (auto simp: cstring_def)
  show ?case
  proof (cases t)
    case Nil
    have "(of_char c :: int) = 0 \<longleftrightarrow> c = CHR 0x00"
      using of_char_eq_iff [of c "CHR 0x00", where ?'a = int] by simp
    with c0 Nil show ?thesis by (simp add: strlen_def)
  next
    case (Cons d ds)
    have "(of_char c :: int) = of_char d \<longleftrightarrow> c = d"
      by simp
    with Cons Cons.IH [OF cs, of ds] show ?thesis
      by (simp add: strlen_def)
  qed
qed

text \<open>C2, as the code has it: the match is a case-sensitive prefix test. Every prefix of
  \<^verbatim>\<open>euclidean\<close>, the empty string included, selects the Euclidean metric; every other
  string that is a prefix of \<^verbatim>\<open>cosine\<close> selects the cosine metric; any other string ends
  the program with status 1.\<close>

theorem select_metric_prefix:
  assumes "cstring d"
  shows "(prefix d ''euclidean'' \<longrightarrow> select_metric d = ([], Inr distance_euclidean)) \<and>
         (\<not> prefix d ''euclidean'' \<and> prefix d ''cosine'' \<longrightarrow>
            select_metric d = ([], Inr distance_cosine)) \<and>
         (\<not> prefix d ''euclidean'' \<and> \<not> prefix d ''cosine'' \<longrightarrow>
            snd (select_metric d) = Inl (Exit 1))"
  using strncmp_prefix [OF assms, of "''euclidean''"] strncmp_prefix [OF assms, of "''cosine''"]
  by (simp add: select_metric_def ret_def)

theorem select_metric_prefix_witness:
  "cstring ''cos'' \<and> select_metric ''cos'' = ([], Inr distance_cosine) \<and>
   cstring ''eucl'' \<and> select_metric ''eucl'' = ([], Inr distance_euclidean) \<and>
   cstring ''manhattan'' \<and> snd (select_metric ''manhattan'') = Inl (Exit 1)"
  using select_metric_prefix [of "''cos''"] select_metric_prefix [of "''eucl''"]
    select_metric_prefix [of "''manhattan''"]
  by (simp add: cstring_def)

text \<open>C2 as stated fails: an upper-case prefix is rejected, and the empty string selects
  the Euclidean metric instead of being an error.\<close>

theorem select_metric_case_counterexample:
  "snd (select_metric ''E'') = Inl (Exit 1) \<and> snd (select_metric ''COS'') = Inl (Exit 1) \<and>
   select_metric [] = ([], Inr distance_euclidean)"
  by (simp add: select_metric_def strlen_def ret_def)

subsection \<open>Evaluating a run on concrete input\<close>

lemmas run_defs =
  main_def main_steps_def coordinate_def collect_and_report_def dispatch_phase_def example_env_def
  default_config_def atoi_def isspace_def isdigit_def select_metric_def strlen_def load_def
  argv_at_def when_verbose_def from_children_len_def c_mod_def signed_modulo_int_def
  dispatch_loop.simps dispatch_one_def child_branch_def checked_def partition_N_def
  collect_loop.simps wait_loop.simps wait_one_def sizeof_int_def show_int_def show_nat.simps show_str_def
  ret_def usage_def known_option_def

subsection \<open>Options and arguments\<close>

lemma getopt_loop_rejects:
  "\<exists>x\<in>set opts. \<not> known_option (fst x) \<Longrightarrow>
   getopt_loop name cfg opts = ([usage name], Inl (Exit 1))"
proof (induction opts arbitrary: cfg)
  case Nil
  then show ?case by simp
next
  case (Cons x opts)
  obtain c a where x: "x = (c, a)" by (cases x)
  show ?case
  proof (cases "known_option c")
    case True
    with Cons.prems x have "\<exists>y\<in>set opts. \<not> known_option (fst y)" by auto
    from Cons.IH [OF this] True x show ?thesis
      by (auto simp: known_option_def)
  next
    case False
    with x show ?thesis by (simp add: known_option_def)
  qed
qed

lemma getopt_loop_accepts:
  "\<forall>x\<in>set opts. known_option (fst x) \<Longrightarrow>
   \<exists>cfg'. getopt_loop name cfg opts = ([], Inr cfg')"
proof (induction opts arbitrary: cfg)
  case Nil
  then show ?case by (simp add: ret_def)
next
  case (Cons x opts)
  obtain c a where x: "x = (c, a)" by (cases x)
  from Cons.prems x have k: "known_option c" by simp
  from Cons.prems have "\<forall>y\<in>set opts. known_option (fst y)" by simp
  from Cons.IH [OF this] x k show ?case by (auto simp: known_option_def)
qed

lemma getopt_loop_cases:
  "getopt_loop name cfg opts = ([usage name], Inl (Exit 1)) \<or>
   (\<exists>cfg'. getopt_loop name cfg opts = ([], Inr cfg'))"
  using getopt_loop_rejects [of opts name cfg] getopt_loop_accepts [of opts name cfg]
  by blast

text \<open>C6, as the code has it: an option character outside \<^verbatim>\<open>vK:d:p:\<close> (which is also what
  \<^verbatim>\<open>getopt\<close> answers for an option without its argument) or no argument left after the
  options ends the program with status 1 after a single message on the error stream:
  nothing is loaded and nothing is printed on standard output. When every option is
  known the loop accepts them whatever their values: \<^verbatim>\<open>-K\<close> and \<^verbatim>\<open>-p\<close> are stored as
  \<^verbatim>\<open>atoi\<close> converts them, with no check.\<close>

theorem config_error_before_work:
  "((\<exists>x\<in>set opts. \<not> known_option (fst x)) \<or> args = [] \<longrightarrow>
      snd (main fuel env name opts args) = Exit 1 \<and>
      (\<exists>msg. fst (main fuel env name opts args) = [Stderr msg])) \<and>
   ((\<forall>x\<in>set opts. known_option (fst x)) \<longrightarrow>
      (\<exists>cfg. getopt_loop name default_config opts = ([], Inr cfg))) \<and>
   getopt_loop name cfg0 ((CHR ''K'', s) # opts) = getopt_loop name (cfg0\<lparr>K := atoi s\<rparr>) opts \<and>
   getopt_loop name cfg0 ((CHR ''p'', s) # opts) =
     getopt_loop name (cfg0\<lparr>num_procs := atoi s\<rparr>) opts"
proof -
  have a: "snd (main fuel env name opts args) = Exit 1 \<and>
      (\<exists>msg. fst (main fuel env name opts args) = [Stderr msg])"
    if "\<exists>x\<in>set opts. \<not> known_option (fst x)"
    using getopt_loop_rejects [OF that, of name default_config]
    by (simp add: main_def main_steps_def usage_def)
  have b: "snd (main fuel env name opts args) = Exit 1 \<and>
      (\<exists>msg. fst (main fuel env name opts args) = [Stderr msg])"
    if "args = []"
    using getopt_loop_cases [of name default_config opts] that
    by (auto simp: main_def main_steps_def usage_def)
  show ?thesis
    using a b getopt_loop_accepts [of opts name default_config] by auto
qed

theorem config_error_before_work_witness:
  "snd (main 1 (example_env (\<lambda>i j. (4, 2)) (\<lambda>i. (1, Exited 0))) ''classifier''
          [(CHR ''x'', [])] [''train'', ''test'']) = Exit 1 \<and>
   (\<exists>msg. fst (main 1 (example_env (\<lambda>i j. (4, 2)) (\<lambda>i. (1, Exited 0))) ''classifier''
          [(CHR ''x'', [])] [''train'', ''test'']) = [Stderr msg]) \<and>
   snd (main 1 (example_env (\<lambda>i j. (4, 2)) (\<lambda>i. (1, Exited 0))) ''classifier''
          [(CHR ''K'', ''3'')] []) = Exit 1 \<and>
   (\<exists>cfg. getopt_loop ''classifier'' default_config [(CHR ''K'', ''0''), (CHR ''p'', ''-2'')] =
      ([], Inr cfg))"
  using config_error_before_work [of "[(CHR ''x'', [])]" "[''train'', ''test'']" 1
      "example_env (\<lambda>i j. (4, 2)) (\<lambda>i. (1, Exited 0))" "''classifier''" default_config "[]"]
    config_error_before_work [of "[(CHR ''K'', ''3'')]" "[]" 1
      "example_env (\<lambda>i j. (4, 2)) (\<lambda>i. (1, Exited 0))" "''classifier''" default_config "[]"]
    config_error_before_work [of "[(CHR ''K'', ''0''), (CHR ''p'', ''-2'')]" "[]" 1
      "example_env (\<lambda>i j. (4, 2)) (\<lambda>i. (1, Exited 0))" "''classifier''" default_config "[]"]
  by (simp add: known_option_def)

text \<open>C6 as stated fails: with \<^verbatim>\<open>-K 0\<close> the run goes through and reports a total with
  status 0, and with \<^verbatim>\<open>-p 0\<close> both datasets are loaded before the array of size 0 is
  declared.\<close>

theorem unchecked_values_counterexample:
  "main 1 (example_env (\<lambda>i j. (4, 2)) (\<lambda>i. (1, Exited 0))) ''classifier''
     [(CHR ''K'', ''0'')] [''train'', ''test''] =
     ([LoadDataset (Some ''train''), LoadDataset (Some ''test''),
       Pipe (c_to_p 0), Pipe (p_to_c 0), Write (p_to_c 0) 0, Write (p_to_c 0) 7,
       Close (p_to_c 0) WriteEnd, Fork 0, Close (p_to_c 0) ReadEnd,
       Close (c_to_p 0) WriteEnd, Read 0, Close (c_to_p 0) ReadEnd, Wait,
       Stdout ''2\<newline>'', FreeDataset, FreeDataset], Exit 0) \<and>
   main 1 (example_env (\<lambda>i j. (4, 2)) (\<lambda>i. (1, Exited 0))) ''classifier''
     [(CHR ''p'', ''0'')] [''train'', ''test''] =
     ([LoadDataset (Some ''train''), LoadDataset (Some ''test'')], Undefined ArraySize)"
  by (simp add: run_defs)

text \<open>C7: when the string left in \<^verbatim>\<open>dist_metric\<close> by the options is a prefix of neither
  name, the program ends with status 1 and its whole trace is one message on the error
  stream: no dataset is loaded.\<close>

theorem unmatched_metric_before_load:
  assumes "getopt_loop name default_config opts = ([], Inr cfg)"
    and "cstring (dist_metric cfg)"
    and "\<not> prefix (dist_metric cfg) ''euclidean''"
    and "\<not> prefix (dist_metric cfg) ''cosine''"
  shows "snd (main fuel env name opts args) = Exit 1 \<and>
         (\<exists>msg. fst (main fuel env name opts args) = [Stderr msg]) \<and>
         filter is_load (fst (main fuel env name opts args)) = []"
proof -
  have "select_metric (dist_metric cfg) =
      ([Stderr (''Expected any initial substring of '' @ [CHR 0x22] @ ''euclidean'' @
               [CHR 0x22] @ '' or '' @ [CHR 0x22] @ ''cosine'' @ [CHR 0x22] @
               '' as argument for -d\<newline>'')], Inl (Exit 1))"
    using strncmp_prefix [OF assms(2)] assms(3,4) by (simp add: select_metric_def)
  then show ?thesis
    using assms(1) by (cases "args = []") (simp_all add: main_def main_steps_def)
qed

theorem unmatched_metric_before_load_witness:
  "getopt_loop ''classifier'' default_config [(CHR ''d'', ''manhattan'')] =
     ([], Inr (default_config\<lparr>dist_metric := ''manhattan''\<rparr>)) \<and>
   cstring ''manhattan'' \<and> \<not> prefix ''manhattan'' ''euclidean'' \<and>
   \<not> prefix ''manhattan'' ''cosine'' \<and>
   snd (main 1 (example_env (\<lambda>i j. (4, 2)) (\<lambda>i. (1, Exited 0))) ''classifier''
          [(CHR ''d'', ''manhattan'')] [''train'', ''test'']) = Exit 1 \<and>
   filter is_load (fst (main 1 (example_env (\<lambda>i j. (4, 2)) (\<lambda>i. (1, Exited 0))) ''classifier''
          [(CHR ''d'', ''manhattan'')] [''train'', ''test''])) = []"
  using unmatched_metric_before_load [of "''classifier''" "[(CHR ''d'', ''manhattan'')]"
      "default_config\<lparr>dist_metric := ''manhattan''\<rparr>" 1
      "example_env (\<lambda>i j. (4, 2)) (\<lambda>i. (1, Exited 0))" "[''train'', ''test'']"]
  by (simp add: cstring_def ret_def)

subsection \<open>The partition plan\<close>

lemma written_to_append [simp]:
  "written_to pid (xs @ ys) = written_to pid xs @ written_to pid ys"
  by (induction pid xs rule: written_to.induct) auto

lemma smod_nonneg: "0 \<le> T \<Longrightarrow> 1 \<le> p \<Longrightarrow> T smod p = T mod (p::int)"
  by (cases "T = 0") (simp_all add: signed_modulo_int_def)

lemma ceiling_int_div:
  assumes "1 \<le> (p::int)"
  shows "\<lceil>real_of_int T / real_of_int p\<rceil> = (if T mod p = 0 then T div p else T div p + 1)"
proof -
  have "\<lceil>real_of_int T / real_of_int p\<rceil> = - \<lfloor>real_of_int (- T) / real_of_int p\<rfloor>"
    by (simp add: ceiling_def)
  also have "\<dots> = - ((- T) div p)"
    by (simp only: floor_divide_of_int_eq)
  also have "\<dots> = (if T mod p = 0 then T div p else T div p + 1)"
    using assms by (simp add: zdiv_zminus1_eq_if)
  finally show ?thesis .
qed

text \<open>The quotient under \<^verbatim>\<open>ceil\<close> and \<^verbatim>\<open>floor\<close> is a \<^verbatim>\<open>double\<close>. Whatever the rounding
  \<open>rnd\<close> of the division is, as long as it leaves the integers below \<open>2 ^ 53\<close> alone
  and has a relative error of at most \<open>2 ^ -53\<close> (which is what binary64 arithmetic
  gives), the rounded quotient of \<open>T\<close> by \<open>p\<close> has the floor and the ceiling of the exact
  one. This is why \<open>partition_N\<close> is written with the exact quotient.\<close>

lemma rounded_quotient:
  fixes rnd :: "real \<Rightarrow> real" and T p :: int
  assumes exact: "\<And>k::int. 0 \<le> k \<Longrightarrow> k < 2 ^ 53 \<Longrightarrow> rnd (of_int k) = of_int k"
    and close: "\<And>x. \<bar>rnd x - x\<bar> \<le> \<bar>x\<bar> / 2 ^ 53"
    and T: "0 \<le> T" "T < 2 ^ 53" and p: "1 \<le> p"
  shows "\<lfloor>rnd (real_of_int T / real_of_int p)\<rfloor> = \<lfloor>real_of_int T / real_of_int p\<rfloor> \<and>
         \<lceil>rnd (real_of_int T / real_of_int p)\<rceil> = \<lceil>real_of_int T / real_of_int p\<rceil>"
proof (cases "T mod p = 0")
  case True
  then have "T = (T div p) * p"
    by (simp add: mod_eq_0_iff_dvd)
  then have "real_of_int T = of_int (T div p) * of_int p"
    by (metis of_int_mult)
  then have "real_of_int T / real_of_int p = of_int (T div p)"
    using p by simp
  moreover have "0 \<le> T div p"
    using T(1) p by (simp add: pos_imp_zdiv_nonneg_iff)
  moreover have "T div p < 2 ^ 53"
  proof -
    have "T div p \<le> T div 1"
      using T(1) p by (intro zdiv_mono2) simp_all
    with T(2) show ?thesis by simp
  qed
  ultimately show ?thesis by (simp add: exact)
next
  case False
  define x where "x = real_of_int T / real_of_int p"
  define q where "q = T div p"
  define r where "r = T mod p"
  have "0 \<le> T mod p" and "T mod p < p"
    using p by simp_all
  with False have r: "1 \<le> r" "r \<le> p - 1"
    by (simp_all add: r_def)
  have Tqr: "T = q * p + r"
    by (simp add: q_def r_def)
  have pr: "0 < real_of_int p" using p by simp
  have x: "x = of_int q + of_int r / of_int p"
    using pr by (simp add: x_def Tqr field_simps)
  have "1 / real_of_int p \<le> of_int r / of_int p"
    using r(1) pr by (intro divide_right_mono) simp_all
  then have lo: "of_int q + 1 / of_int p \<le> x"
    by (simp add: x)
  have "real_of_int r / of_int p \<le> (of_int p - 1) / of_int p"
    using r(2) pr by (intro divide_right_mono) simp_all
  also have "\<dots> = 1 - 1 / of_int p"
    using pr by (simp add: diff_divide_distrib)
  finally have hi: "x \<le> of_int q + 1 - 1 / of_int p"
    by (simp add: x)
  have x0: "0 \<le> x" using T p by (simp add: x_def)
  have "\<bar>rnd x - x\<bar> \<le> x / 2 ^ 53"
    using close [of x] x0 by simp
  also have "x / 2 ^ 53 < 1 / of_int p"
  proof -
    have "real_of_int T < 2 ^ 53" using T(2) by (metis of_int_less_numeral_power_cancel_iff)
    then show ?thesis using pr by (simp add: x_def field_simps)
  qed
  finally have err: "\<bar>rnd x - x\<bar> < 1 / of_int p" .
  have gt: "of_int q < rnd x" using err lo by linarith
  have lt: "rnd x < of_int q + 1" using err hi by linarith
  have pp: "0 < 1 / real_of_int p" using pr by simp
  have xq: "of_int q < x" "x < of_int q + 1"
    using lo hi pp by linarith+
  have "\<lfloor>rnd x\<rfloor> = q" using gt lt by (intro floor_unique) simp_all
  moreover have "\<lfloor>x\<rfloor> = q" using xq by (intro floor_unique) simp_all
  moreover have "\<lceil>rnd x\<rceil> = q + 1" using gt lt by (intro ceiling_unique) simp_all
  moreover have "\<lceil>x\<rceil> = q + 1" using xq by (intro ceiling_unique) simp_all
  ultimately show ?thesis by (simp add: x_def)
qed

lemma partition_N_spec:
  assumes "0 \<le> T" "1 \<le> p"
  shows "partition_N T p (T smod p) (int i) = spec_len T p i"
proof -
  have "T mod p \<noteq> 0" if "int i < T mod p"
    using that by simp
  then show ?thesis
    using assms
    by (simp add: partition_N_def spec_len_def smod_nonneg ceiling_int_div
        floor_divide_of_int_eq)
qed

lemma dispatch_one_Inr:
  assumes "dispatch_one env cfg T b i s = (tr, Inr s')"
  shows "tr = [Pipe (c_to_p i), Pipe (p_to_c i), Write (p_to_c i) s,
               Write (p_to_c i) (partition_N T (num_procs cfg) b (int i)),
               Close (p_to_c i) WriteEnd, Fork i, Close (p_to_c i) ReadEnd,
               Close (c_to_p i) WriteEnd] \<and>
         s' = s + partition_N T (num_procs cfg) b (int i)"
  using assms
  by (auto simp: dispatch_one_def child_branch_def checked_def ret_def Let_def
      split: if_splits option.splits)

lemma seq_eq_Inr:
  "seq m f = (tr, Inr b) \<Longrightarrow>
   \<exists>tr1 a tr2. m = (tr1, Inr a) \<and> f a = (tr2, Inr b) \<and> tr = tr1 @ tr2"
  by (cases m; cases "snd m") (auto simp: prod_eq_iff)

lemma dispatch_loop_step:
  "int i < num_procs cfg \<Longrightarrow>
   dispatch_loop env cfg T b i s =
     seq (dispatch_one env cfg T b i s) (dispatch_loop env cfg T b (Suc i))"
  by (subst dispatch_loop.simps) simp

lemma dispatch_loop_done:
  "\<not> int i < num_procs cfg \<Longrightarrow> dispatch_loop env cfg T b i s = ([], Inr s)"
  by (subst dispatch_loop.simps) (simp add: ret_def)

lemma dispatch_loop_Inr:
  "dispatch_loop env cfg T b i s = (tr, Inr s') \<Longrightarrow>
   s' = s + (\<Sum>j = i..<nat (num_procs cfg). partition_N T (num_procs cfg) b (int j)) \<and>
   (\<forall>k. written_to (p_to_c k) tr =
      (if i \<le> k \<and> k < nat (num_procs cfg)
       then [s + (\<Sum>j = i..<k. partition_N T (num_procs cfg) b (int j)),
             partition_N T (num_procs cfg) b (int k)]
       else []))"
proof (induction env cfg T b i s arbitrary: tr s' rule: dispatch_loop.induct)
  case (1 env cfg T b i s)
  show ?case
  proof (cases "int i < num_procs cfg")
    case False
    then have "nat (num_procs cfg) \<le> i" by linarith
    with False "1.prems" show ?thesis
      by (auto simp: dispatch_loop_done)
  next
    case True
    with "1.prems" have
      "seq (dispatch_one env cfg T b i s) (dispatch_loop env cfg T b (Suc i)) = (tr, Inr s')"
      by (simp add: dispatch_loop_step)
    from seq_eq_Inr [OF this] obtain tr1 s1 tr2 where
      one: "dispatch_one env cfg T b i s = (tr1, Inr s1)" and
      rest: "dispatch_loop env cfg T b (Suc i) s1 = (tr2, Inr s')" and
      tr: "tr = tr1 @ tr2"
      by blast
    note o = dispatch_one_Inr [OF one]
    note r = "1.IH" [OF True rest]
    have i: "i < nat (num_procs cfg)" using True by simp
    have s': "s' = s + (\<Sum>j = i..<nat (num_procs cfg). partition_N T (num_procs cfg) b (int j))"
      using o r i by (simp add: sum.atLeast_Suc_lessThan)
    have w: "written_to (p_to_c k) tr =
      (if i \<le> k \<and> k < nat (num_procs cfg)
       then [s + (\<Sum>j = i..<k. partition_N T (num_procs cfg) b (int j)),
             partition_N T (num_procs cfg) b (int k)]
       else [])" for k
    proof -
      consider "k < i" | "k = i" | "i < k"
        by linarith
      then show ?thesis
      proof cases
        case 1
        then show ?thesis using o r tr by simp
      next
        case 2
        then show ?thesis using o r tr i by simp
      next
        case 3
        then show ?thesis using o r tr by (simp add: sum.atLeast_Suc_lessThan)
      qed
    qed
    from s' w show ?thesis by blast
  qed
qed


lemma spec_start_Suc: "spec_start T p (Suc i) = spec_start T p i + spec_len T p i"
  by (simp add: spec_start_def)

lemma spec_len_nonneg: "0 \<le> T \<Longrightarrow> 1 \<le> p \<Longrightarrow> 0 \<le> spec_len T p i"
  by (simp add: spec_len_def pos_imp_zdiv_nonneg_iff)

lemma spec_start_closed:
  assumes "1 \<le> p"
  shows "spec_start T p i = int i * (T div p) + min (int i) (T mod p)"
proof (induction i)
  case 0
  from assms have "0 \<le> T mod p" by simp
  then show ?case by (simp add: spec_start_def)
next
  case (Suc i)
  then show ?case
    by (simp add: spec_start_Suc spec_len_def algebra_simps min_def)
qed

lemma spec_start_total:
  assumes "1 \<le> p"
  shows "spec_start T p (nat p) = T"
proof -
  from assms have "T mod p < p" by simp
  then have "min p (T mod p) = T mod p" by simp
  with assms show ?thesis
    by (simp add: spec_start_closed)
qed

lemma spec_start_mono:
  assumes "0 \<le> T" "1 \<le> p" "i \<le> j"
  shows "spec_start T p i \<le> spec_start T p j"
proof (rule lift_Suc_mono_le [OF _ assms(3)])
  fix n
  show "spec_start T p n \<le> spec_start T p (Suc n)"
    using spec_len_nonneg [OF assms(1,2), of n] by (simp add: spec_start_Suc)
qed

lemma spec_disjoint:
  assumes "0 \<le> T" "1 \<le> p" "i \<noteq> j"
  shows "{spec_start T p i..<spec_start T p i + spec_len T p i} \<inter>
         {spec_start T p j..<spec_start T p j + spec_len T p j} = {}"
proof -
  have less: "{spec_start T p a..<spec_start T p a + spec_len T p a} \<inter>
         {spec_start T p b..<spec_start T p b + spec_len T p b} = {}" if "a < b" for a b
  proof -
    from that have "Suc a \<le> b" by simp
    from spec_start_mono [OF assms(1,2) this]
    have "spec_start T p a + spec_len T p a \<le> spec_start T p b"
      by (simp add: spec_start_Suc)
    then show ?thesis by auto
  qed
  from assms(3) consider "i < j" | "j < i" by linarith
  then show ?thesis
    using less [of i j] less [of j i] by cases auto
qed

lemma spec_cover_upto:
  assumes "0 \<le> T" "1 \<le> p"
  shows "(\<Union>i<n. {spec_start T p i..<spec_start T p i + spec_len T p i}) =
         {0..<spec_start T p n}"
proof (induction n)
  case 0
  then show ?case by (simp add: spec_start_def)
next
  case (Suc n)
  have lo: "0 \<le> spec_start T p n"
    using spec_start_mono [OF assms, of 0 n] by (simp add: spec_start_def)
  have hi: "spec_start T p n \<le> spec_start T p (Suc n)"
    using spec_start_mono [OF assms, of n "Suc n"] by simp
  have "(\<Union>i<Suc n. {spec_start T p i..<spec_start T p i + spec_len T p i}) =
        {0..<spec_start T p n} \<union> {spec_start T p n..<spec_start T p (Suc n)}"
    using Suc.IH by (simp add: lessThan_Suc spec_start_Suc Un_commute)
  also have "\<dots> = {0..<spec_start T p (Suc n)}"
    using lo hi by (rule ivl_disj_un_two)
  finally show ?case .
qed

lemma spec_len_differ: "\<bar>spec_len T p i - spec_len T p j\<bar> \<le> 1"
  by (simp add: spec_len_def)

lemma dispatch_phase_Inr:
  assumes "dispatch_phase env cfg testing = (tr, Inr s)"
  shows "0 < num_procs cfg \<and>
         dispatch_loop env cfg (num_items testing)
           (num_items testing smod num_procs cfg) 0 0 = (tr, Inr s)"
  using assms
  by (auto simp: dispatch_phase_def from_children_len_def c_mod_def ret_def
      split: if_splits)

text \<open>C1: for a test set of \<open>T \<ge> 0\<close> items and \<open>p \<ge> 1\<close> workers, a dispatch that
  completes has written to worker \<open>i\<close>'s pipe exactly the pair (start, length) of the
  specification's plan: the first \<open>T mod p\<close> workers get \<open>T div p + 1\<close> items (the
  ceiling of \<open>T / p\<close>), the others \<open>T div p\<close> (its floor), and the starts accumulate from
  0. The lengths sum to \<open>T\<close> (which is also the final \<^verbatim>\<open>start_idx\<close>), two lengths differ
  by at most 1, the index ranges are pairwise disjoint, follow each other without a gap,
  and cover \<open>0..<T\<close>.\<close>

theorem partition_plan:
  assumes "T = num_items testing" and "p = num_procs cfg"
    and "0 \<le> T" and "1 \<le> p"
    and "dispatch_phase env cfg testing = (tr, Inr s)"
  shows "(\<forall>i<nat p. written_to (p_to_c i) tr = [spec_start T p i, spec_len T p i]) \<and>
         s = T \<and>
         spec_start T p 0 = 0 \<and>
         (\<forall>i. spec_start T p (Suc i) = spec_start T p i + spec_len T p i) \<and>
         (\<Sum>i<nat p. spec_len T p i) = T \<and>
         (\<forall>i j. \<bar>spec_len T p i - spec_len T p j\<bar> \<le> 1) \<and>
         (\<forall>i. 0 \<le> spec_len T p i) \<and>
         (\<forall>i j. i \<noteq> j \<longrightarrow>
            {spec_start T p i..<spec_start T p i + spec_len T p i} \<inter>
            {spec_start T p j..<spec_start T p j + spec_len T p j} = {}) \<and>
         (\<Union>i<nat p. {spec_start T p i..<spec_start T p i + spec_len T p i}) = {0..<T} \<and>
         (\<forall>i. spec_len T p i =
            (if int i < T mod p then \<lceil>real_of_int T / real_of_int p\<rceil>
             else \<lfloor>real_of_int T / real_of_int p\<rfloor>))"
proof -
  from dispatch_phase_Inr [OF assms(5)] assms(1,2)
  have loop: "dispatch_loop env cfg T (T smod p) 0 0 = (tr, Inr s)"
    by simp
  have N: "partition_N T p (T smod p) (int j) = spec_len T p j" for j
    by (rule partition_N_spec [OF assms(3,4)])
  note l = dispatch_loop_Inr [OF loop, unfolded assms(2) [symmetric] N]
  have sums: "(\<Sum>j = 0..<k. spec_len T p j) = spec_start T p k" for k
    by (simp add: spec_start_def atLeast0LessThan)
  have total: "spec_start T p (nat p) = T"
    by (rule spec_start_total [OF assms(4)])
  have w: "\<forall>i<nat p. written_to (p_to_c i) tr = [spec_start T p i, spec_len T p i]"
    using l by (simp add: sums)
  have s: "s = T"
    using l total by (simp add: sums)
  have sum: "(\<Sum>i<nat p. spec_len T p i) = T"
    using total by (simp add: spec_start_def)
  have cover: "(\<Union>i<nat p. {spec_start T p i..<spec_start T p i + spec_len T p i}) = {0..<T}"
    using spec_cover_upto [OF assms(3,4), of "nat p"] total by simp
  have disj: "\<forall>i j. i \<noteq> j \<longrightarrow>
            {spec_start T p i..<spec_start T p i + spec_len T p i} \<inter>
            {spec_start T p j..<spec_start T p j + spec_len T p j} = {}"
    using spec_disjoint [OF assms(3,4)] by blast
  have zero: "spec_start T p 0 = 0"
    by (simp add: spec_start_def)
  have ceil: "\<forall>i. spec_len T p i =
            (if int i < T mod p then \<lceil>real_of_int T / real_of_int p\<rceil>
             else \<lfloor>real_of_int T / real_of_int p\<rfloor>)"
    using N assms(3,4) by (simp add: partition_N_def smod_nonneg)
  have nonneg: "\<forall>i. 0 \<le> spec_len T p i"
    using spec_len_nonneg [OF assms(3,4)] by blast
  from w s zero spec_start_Suc sum spec_len_differ nonneg disj cover ceil show ?thesis
    by blast
qed

theorem partition_plan_witness:
  "snd (dispatch_phase (example_env (\<lambda>i j. (4, 2)) (\<lambda>i. (1, Exited 0)))
          (default_config\<lparr>num_procs := 3\<rparr>) \<lparr>num_items = 7\<rparr>) = Inr 7 \<and>
   written_to (p_to_c 0) (fst (dispatch_phase (example_env (\<lambda>i j. (4, 2)) (\<lambda>i. (1, Exited 0)))
          (default_config\<lparr>num_procs := 3\<rparr>) \<lparr>num_items = 7\<rparr>)) = [0, 3] \<and>
   written_to (p_to_c 1) (fst (dispatch_phase (example_env (\<lambda>i j. (4, 2)) (\<lambda>i. (1, Exited 0)))
          (default_config\<lparr>num_procs := 3\<rparr>) \<lparr>num_items = 7\<rparr>)) = [3, 2] \<and>
   written_to (p_to_c 2) (fst (dispatch_phase (example_env (\<lambda>i j. (4, 2)) (\<lambda>i. (1, Exited 0)))
          (default_config\<lparr>num_procs := 3\<rparr>) \<lparr>num_items = 7\<rparr>)) = [5, 2] \<and>
   spec_start 7 3 2 = 5 \<and> spec_len 7 3 2 = 2 \<and> (\<Sum>i<nat 3. spec_len 7 3 i) = 7"
  using partition_plan [of 7 "\<lparr>num_items = 7\<rparr>" 3 "default_config\<lparr>num_procs := 3\<rparr>"
      "example_env (\<lambda>i j. (4, 2)) (\<lambda>i. (1, Exited 0))"
      "fst (dispatch_phase (example_env (\<lambda>i j. (4, 2)) (\<lambda>i. (1, Exited 0)))
          (default_config\<lparr>num_procs := 3\<rparr>) \<lparr>num_items = 7\<rparr>)" 7]
  by (simp add: run_defs spec_start_def spec_len_def eval_nat_numeral lessThan_Suc)

subsection \<open>Outcomes and events of the phases\<close>

lemma fst_seq: "fst (seq m f) = fst m @ (case snd m of Inl out \<Rightarrow> [] | Inr a \<Rightarrow> fst (f a))"
  by (cases m; cases "snd m") auto

lemma snd_seq: "snd (seq m f) = (case snd m of Inl out \<Rightarrow> Inl out | Inr a \<Rightarrow> snd (f a))"
  by (cases m; cases "snd m") auto

lemma seq_outcome:
  "snd (seq m f) = Inl out \<Longrightarrow> snd m = Inl out \<or> (\<exists>a. snd m = Inr a \<and> snd (f a) = Inl out)"
  by (cases m; cases "snd m") auto

lemma checked_outcome: "snd (checked e failed name) = Inl out \<Longrightarrow> out = Exit 1"
  by (simp add: checked_def split: if_splits)

lemma child_branch_Inl: "\<exists>out. snd (child_branch env i k) = Inl out"
  by (simp add: child_branch_def checked_def snd_seq split: option.splits)

lemma child_branch_outcome: "snd (child_branch env i k) = Inl out \<Longrightarrow> \<exists>c. out = Exit c"
  by (auto simp: child_branch_def checked_def snd_seq split: option.splits if_splits)

lemma dispatch_one_outcome:
  "snd (dispatch_one env cfg T b i s) = Inl out \<Longrightarrow>
   out = Exit 1 \<or> (fork_ret env i = 0 \<and> (\<exists>c. out = Exit c))"
  using child_branch_outcome [of env i "K cfg" out]
  by (auto simp: dispatch_one_def checked_def snd_seq Let_def ret_def split: if_splits)

lemma dispatch_loop_outcome:
  "snd (dispatch_loop env cfg T b i s) = Inl out \<Longrightarrow>
   out = Exit 1 \<or> ((\<exists>k. fork_ret env k = 0) \<and> (\<exists>c. out = Exit c))"
proof (induction env cfg T b i s rule: dispatch_loop.induct)
  case (1 env cfg T b i s)
  show ?case
  proof (cases "int i < num_procs cfg")
    case False
    with "1.prems" show ?thesis by (simp add: dispatch_loop_done)
  next
    case True
    with "1.prems" have
      "snd (seq (dispatch_one env cfg T b i s) (dispatch_loop env cfg T b (Suc i))) = Inl out"
      by (simp add: dispatch_loop_step)
    from seq_outcome [OF this] show ?thesis
      using dispatch_one_outcome "1.IH" [OF True] by blast
  qed
qed

lemma read_loop_outcome:
  "snd (read_loop fuel env i j) = Inl out \<Longrightarrow> out = Exit 1 \<or> out = OutOfFuel"
  by (induction fuel env i j rule: read_loop.induct)
    (auto simp: snd_seq split: prod.splits if_splits)

lemma collect_loop_step:
  "int i < num_procs cfg \<Longrightarrow>
   collect_loop fuel env cfg i tot =
     seq (read_loop fuel env i 0) (\<lambda>count.
     seq (checked (Close (c_to_p i) ReadEnd) (close_ret env (c_to_p i) ReadEnd < 0) ''close'')
       (\<lambda>_. collect_loop fuel env cfg (Suc i) (tot + count)))"
  by (subst collect_loop.simps) simp

lemma collect_loop_done:
  "\<not> int i < num_procs cfg \<Longrightarrow> collect_loop fuel env cfg i tot = ([], Inr tot)"
  by (subst collect_loop.simps) (simp add: ret_def)

lemma collect_loop_outcome:
  "snd (collect_loop fuel env cfg i tot) = Inl out \<Longrightarrow> out = Exit 1 \<or> out = OutOfFuel"
proof (induction fuel env cfg i tot rule: collect_loop.induct)
  case (1 fuel env cfg i tot)
  show ?case
  proof (cases "int i < num_procs cfg")
    case False
    with "1.prems" show ?thesis by (simp add: collect_loop_done)
  next
    case True
    note step = "1.prems" [unfolded collect_loop_step [OF True]]
    from seq_outcome [OF step] show ?thesis
    proof
      assume "snd (read_loop fuel env i 0) = Inl out"
      then show ?thesis by (rule read_loop_outcome)
    next
      assume "\<exists>a. snd (read_loop fuel env i 0) = Inr a \<and>
        snd (seq (checked (Close (c_to_p i) ReadEnd) (close_ret env (c_to_p i) ReadEnd < 0)
                ''close'')
              (\<lambda>_. collect_loop fuel env cfg (Suc i) (tot + a))) = Inl out"
      then obtain a where
        a: "snd (seq (checked (Close (c_to_p i) ReadEnd) (close_ret env (c_to_p i) ReadEnd < 0)
                ''close'')
              (\<lambda>_. collect_loop fuel env cfg (Suc i) (tot + a))) = Inl out"
        by blast
      from seq_outcome [OF a] show ?thesis
        using checked_outcome "1.IH" [OF True] by blast
    qed
  qed
qed


lemma wait_loop_step:
  "int i < num_procs cfg \<Longrightarrow>
   wait_loop env cfg i = seq (wait_one env i) (\<lambda>_. wait_loop env cfg (Suc i))"
  by (subst wait_loop.simps) simp

lemma wait_loop_done:
  "\<not> int i < num_procs cfg \<Longrightarrow> wait_loop env cfg i = ([], Inr ())"
  by (subst wait_loop.simps) (simp add: ret_def)

lemma snd_wait_one:
  "snd (wait_one env i) =
     (if fst (wait_ret env i) < 0 \<or> snd (wait_ret env i) = Exited 1 then Inl (Exit 1)
      else Inr ())"
  by (auto simp: wait_one_def split: prod.splits wstatus.splits)

lemma snd_wait_loop:
  "snd (wait_loop env cfg i) =
     (if \<exists>k. i \<le> k \<and> int k < num_procs cfg \<and>
            (fst (wait_ret env k) < 0 \<or> snd (wait_ret env k) = Exited 1)
      then Inl (Exit 1) else Inr ())"
proof (induction env cfg i rule: wait_loop.induct)
  case (1 env cfg i)
  show ?case
  proof (cases "int i < num_procs cfg")
    case False
    then have "\<not> (\<exists>k. i \<le> k \<and> int k < num_procs cfg \<and>
            (fst (wait_ret env k) < 0 \<or> snd (wait_ret env k) = Exited 1))"
      by auto
    with False show ?thesis by (simp add: wait_loop_done)
  next
    case True
    show ?thesis
    proof (cases "fst (wait_ret env i) < 0 \<or> snd (wait_ret env i) = Exited 1")
      case bad: True
      with True have "\<exists>k. i \<le> k \<and> int k < num_procs cfg \<and>
            (fst (wait_ret env k) < 0 \<or> snd (wait_ret env k) = Exited 1)"
        by blast
      with True bad show ?thesis
        by (simp add: wait_loop_step snd_seq snd_wait_one)
    next
      case good: False
      have "(\<exists>k. i \<le> k \<and> int k < num_procs cfg \<and>
            (fst (wait_ret env k) < 0 \<or> snd (wait_ret env k) = Exited 1)) =
         (\<exists>k. Suc i \<le> k \<and> int k < num_procs cfg \<and>
            (fst (wait_ret env k) < 0 \<or> snd (wait_ret env k) = Exited 1))"
        using good by (metis Suc_leI le_neq_implies_less Suc_leD)
      with True good "1.IH" [OF True] show ?thesis
        by (simp add: wait_loop_step snd_seq snd_wait_one)
    qed
  qed
qed

lemma coordinate_outcome:
  assumes "snd (coordinate fuel env cfg testing) = Inl out"
  shows "out = Exit 1 \<or> out = OutOfFuel \<or> (out = Undefined ArraySize \<and> num_procs cfg \<le> 0) \<or>
         ((\<exists>k. fork_ret env k = 0) \<and> (\<exists>c. out = Exit c))"
proof -
  have d: "out = Exit 1 \<or> (out = Undefined ArraySize \<and> num_procs cfg \<le> 0) \<or>
         ((\<exists>k. fork_ret env k = 0) \<and> (\<exists>c. out = Exit c))"
    if "snd (dispatch_phase env cfg testing) = Inl out"
    using that dispatch_loop_outcome [of env cfg "num_items testing" _ 0 0 out]
    by (auto simp: dispatch_phase_def from_children_len_def c_mod_def snd_seq ret_def
        split: if_splits)
  have w: "out = Exit 1" if "snd (wait_loop env cfg 0) = Inl out"
    using that by (simp add: snd_wait_loop split: if_splits)
  from assms show ?thesis
    using d w collect_loop_outcome [of fuel env cfg 0 0 out]
    by (auto simp: coordinate_def collect_and_report_def when_verbose_def snd_seq ret_def
        split: if_splits sum.splits)
qed


lemma stdout_of_append [simp]: "stdout_of (xs @ ys) = stdout_of xs @ stdout_of ys"
  by (induction xs rule: stdout_of.induct) auto

lemma seq_events:
  assumes "\<forall>e\<in>set (fst m). P e" and "\<And>a. \<forall>e\<in>set (fst (f a)). P e"
  shows "\<forall>e\<in>set (fst (seq m f)). P e"
  using assms by (auto simp: fst_seq split: sum.splits)

lemma checked_events: "P e \<Longrightarrow> P (Perror name) \<Longrightarrow> \<forall>x\<in>set (fst (checked e failed name)). P x"
  by (simp add: checked_def)

lemma if_events:
  assumes "c \<Longrightarrow> \<forall>e\<in>set (fst x). P e" and "\<not> c \<Longrightarrow> \<forall>e\<in>set (fst y). P e"
  shows "\<forall>e\<in>set (fst (if c then x else y)). P e"
  using assms by simp

lemma child_branch_events: "\<forall>e\<in>set (fst (child_branch env i k)). dispatch_event e"
  unfolding child_branch_def
  by (intro seq_events checked_events) (auto split: option.splits)

lemma dispatch_one_events: "\<forall>e\<in>set (fst (dispatch_one env cfg T b i s)). dispatch_event e"
  unfolding dispatch_one_def Let_def
  by (intro seq_events checked_events if_events child_branch_events) (simp_all add: ret_def)

lemma dispatch_loop_events: "\<forall>e\<in>set (fst (dispatch_loop env cfg T b i s)). dispatch_event e"
proof (induction env cfg T b i s rule: dispatch_loop.induct)
  case (1 env cfg T b i s)
  show ?case
  proof (cases "int i < num_procs cfg")
    case False
    then show ?thesis by (simp add: dispatch_loop_done)
  next
    case True
    show ?thesis
      unfolding dispatch_loop_step [OF True]
      by (intro seq_events dispatch_one_events "1.IH" [OF True])
  qed
qed

lemma dispatch_phase_events: "\<forall>e\<in>set (fst (dispatch_phase env cfg testing)). dispatch_event e"
  unfolding dispatch_phase_def
  by (intro seq_events dispatch_loop_events) (auto simp: ret_def split: sum.splits)

lemma read_loop_events: "\<forall>e\<in>set (fst (read_loop fuel env i j)). collect_event e"
  by (induction fuel env i j rule: read_loop.induct)
    (auto simp: fst_seq split: prod.splits if_splits)

lemma collect_loop_events: "\<forall>e\<in>set (fst (collect_loop fuel env cfg i tot)). collect_event e"
proof (induction fuel env cfg i tot rule: collect_loop.induct)
  case (1 fuel env cfg i tot)
  show ?case
  proof (cases "int i < num_procs cfg")
    case False
    then show ?thesis by (simp add: collect_loop_done)
  next
    case True
    show ?thesis
      unfolding collect_loop_step [OF True]
      by (intro seq_events read_loop_events checked_events "1.IH" [OF True]) simp_all
  qed
qed

lemma wait_one_events: "\<forall>e\<in>set (fst (wait_one env i)). wait_event e"
  by (auto simp: wait_one_def split: prod.splits wstatus.splits)

lemma wait_loop_events: "\<forall>e\<in>set (fst (wait_loop env cfg i)). wait_event e"
proof (induction env cfg i rule: wait_loop.induct)
  case (1 env cfg i)
  show ?case
  proof (cases "int i < num_procs cfg")
    case False
    then show ?thesis by (simp add: wait_loop_done)
  next
    case True
    show ?thesis
      unfolding wait_loop_step [OF True]
      by (intro seq_events wait_one_events "1.IH" [OF True])
  qed
qed

lemma dispatch_event_quiet:
  "\<forall>e\<in>set tr. dispatch_event e \<Longrightarrow> stdout_of tr = [] \<and> (\<forall>e\<in>set tr. \<not> is_read e)"
  by (induction tr rule: stdout_of.induct) auto

lemma collect_event_quiet:
  "\<forall>e\<in>set tr. collect_event e \<Longrightarrow>
   stdout_of tr = [] \<and> (\<forall>e\<in>set tr. \<not> is_write e \<and> \<not> is_fork e)"
  by (induction tr rule: stdout_of.induct) auto

lemma wait_event_quiet:
  "\<forall>e\<in>set tr. wait_event e \<Longrightarrow>
   stdout_of tr = [] \<and> (\<forall>e\<in>set tr. \<not> is_write e \<and> \<not> is_fork e \<and> \<not> is_read e)"
  by (induction tr rule: stdout_of.induct) auto

subsection \<open>The precondition on the number of processes\<close>



subsection \<open>Waiting for the workers\<close>

lemma coordinate_after_collect:
  assumes "dispatch_phase env cfg testing = (dtr, Inr s)"
    and "collect_loop fuel env cfg 0 0 = (ctr, Inr tot)"
  shows "coordinate fuel env cfg testing =
     ((if verbose cfg \<noteq> 0 then [Stdout ''- Creating children ...\<newline>''] else []) @ dtr @ ctr @
      (if verbose cfg \<noteq> 0 then [Stdout ''- Waiting for children...\<newline>''] else []) @
      fst (wait_loop env cfg 0) @
      (case snd (wait_loop env cfg 0) of
         Inl out \<Rightarrow> []
       | Inr u \<Rightarrow>
          (if verbose cfg \<noteq> 0
           then [Stdout (''Number of correct predictions: '' @ show_int tot @ ''\<newline>'')]
           else []) @
          [Stdout (show_int tot @ ''\<newline>''), FreeDataset, FreeDataset]),
      (case snd (wait_loop env cfg 0) of Inl out \<Rightarrow> Inl out | Inr u \<Rightarrow> Inr 0))"
  using assms
  by (cases "wait_loop env cfg 0"; cases "snd (wait_loop env cfg 0)")
    (auto simp: coordinate_def collect_and_report_def when_verbose_def ret_def)

text \<open>C5, as the code has it: once dispatch and collection are through, the run ends
  with status 1, and without the total on standard output, exactly when a \<^verbatim>\<open>wait\<close>
  fails or a reaped worker has exited with status 1. In every other case (a worker
  killed by a signal, a worker that exited with another status) the run returns 0 and
  its last line on standard output is the total.\<close>

theorem wait_detects_status_1:
  assumes "dispatch_phase env cfg testing = (dtr, Inr s)"
    and "collect_loop fuel env cfg 0 0 = (ctr, Inr tot)"
  shows "((\<exists>k. int k < num_procs cfg \<and>
              (fst (wait_ret env k) < 0 \<or> snd (wait_ret env k) = Exited 1)) \<longrightarrow>
            snd (coordinate fuel env cfg testing) = Inl (Exit 1) \<and>
            stdout_of (fst (coordinate fuel env cfg testing)) =
              (if verbose cfg \<noteq> 0
               then [''- Creating children ...\<newline>'', ''- Waiting for children...\<newline>'']
               else [])) \<and>
         (\<not> (\<exists>k. int k < num_procs cfg \<and>
              (fst (wait_ret env k) < 0 \<or> snd (wait_ret env k) = Exited 1)) \<longrightarrow>
            snd (coordinate fuel env cfg testing) = Inr 0 \<and>
            last (stdout_of (fst (coordinate fuel env cfg testing))) = show_int tot @ ''\<newline>'')"
proof -
  have d: "stdout_of dtr = []"
    using dispatch_phase_events [of env cfg testing] assms(1)
    by (simp add: dispatch_event_quiet)
  have c: "stdout_of ctr = []"
    using collect_loop_events [of fuel env cfg 0 0] assms(2)
    by (simp add: collect_event_quiet)
  have w: "stdout_of (fst (wait_loop env cfg 0)) = []"
    using wait_loop_events [of env cfg 0] by (simp add: wait_event_quiet)
  show ?thesis
    unfolding coordinate_after_collect [OF assms]
    using snd_wait_loop [of env cfg 0]
    by (simp add: d c w)
qed

theorem wait_detects_status_1_witness:
  "snd (coordinate 1 (example_env (\<lambda>i j. (4, 2)) (\<lambda>i. (1, Exited 1))) default_config
          \<lparr>num_items = 7\<rparr>) = Inl (Exit 1) \<and>
   stdout_of (fst (coordinate 1 (example_env (\<lambda>i j. (4, 2)) (\<lambda>i. (1, Exited 1)))
          default_config \<lparr>num_items = 7\<rparr>)) = [] \<and>
   snd (coordinate 1 (example_env (\<lambda>i j. (4, 2)) (\<lambda>i. (1, Exited 0))) default_config
          \<lparr>num_items = 7\<rparr>) = Inr 0 \<and>
   last (stdout_of (fst (coordinate 1 (example_env (\<lambda>i j. (4, 2)) (\<lambda>i. (1, Exited 0)))
          default_config \<lparr>num_items = 7\<rparr>))) = ''2\<newline>''"
  using wait_detects_status_1 [of "example_env (\<lambda>i j. (4, 2)) (\<lambda>i. (1, Exited 1))"
      default_config "\<lparr>num_items = 7\<rparr>"
      "fst (dispatch_phase (example_env (\<lambda>i j. (4, 2)) (\<lambda>i. (1, Exited 1))) default_config
         \<lparr>num_items = 7\<rparr>)" 7 1
      "fst (collect_loop 1 (example_env (\<lambda>i j. (4, 2)) (\<lambda>i. (1, Exited 1))) default_config 0 0)"
      2]
    wait_detects_status_1 [of "example_env (\<lambda>i j. (4, 2)) (\<lambda>i. (1, Exited 0))"
      default_config "\<lparr>num_items = 7\<rparr>"
      "fst (dispatch_phase (example_env (\<lambda>i j. (4, 2)) (\<lambda>i. (1, Exited 0))) default_config
         \<lparr>num_items = 7\<rparr>)" 7 1
      "fst (collect_loop 1 (example_env (\<lambda>i j. (4, 2)) (\<lambda>i. (1, Exited 0))) default_config 0 0)"
      2]
  by (simp add: run_defs)

text \<open>C5 as stated fails: a worker killed by signal 11, or one that exits with status 2,
  leaves the coordinator's status at 0, and the total is printed.\<close>

theorem signaled_worker_counterexample:
  "main 1 (example_env (\<lambda>i j. (4, 2)) (\<lambda>i. (1, Signaled 11))) ''classifier'' []
     [''train'', ''test''] =
     ([LoadDataset (Some ''train''), LoadDataset (Some ''test''),
       Pipe (c_to_p 0), Pipe (p_to_c 0), Write (p_to_c 0) 0, Write (p_to_c 0) 7,
       Close (p_to_c 0) WriteEnd, Fork 0, Close (p_to_c 0) ReadEnd,
       Close (c_to_p 0) WriteEnd, Read 0, Close (c_to_p 0) ReadEnd, Wait,
       Stdout ''2\<newline>'', FreeDataset, FreeDataset], Exit 0) \<and>
   snd (main 1 (example_env (\<lambda>i j. (4, 2)) (\<lambda>i. (1, Exited 2))) ''classifier'' []
     [''train'', ''test'']) = Exit 0"
  by (simp add: run_defs)

subsection \<open>Collecting the results\<close>














subsection \<open>Standard output\<close>

lemma select_metric_cases:
  "(\<exists>m. select_metric d = ([], Inr m)) \<or> (\<exists>msg. select_metric d = ([Stderr msg], Inl (Exit 1)))"
  by (simp add: select_metric_def ret_def)

lemma load_cases:
  "(\<exists>ds. load_dataset env file = Some ds \<and> load env file = ([LoadDataset file], Inr ds)) \<or>
   (\<exists>msg. load env file = ([LoadDataset file, Stderr msg], Inl (Exit 1)))"
  by (cases "load_dataset env file") (simp_all add: load_def)

lemma main_steps_cases:
  "(snd (main_steps fuel env name opts args) = Inl (Exit 1) \<and>
    stdout_of (fst (main_steps fuel env name opts args)) = []) \<or>
   (\<exists>cfg testing.
      getopt_loop name default_config opts = ([], Inr cfg) \<and>
      load_dataset env (argv_at args 1) = Some testing \<and>
      main_steps fuel env name opts args =
        ((if verbose cfg \<noteq> 0 then [Stderr ''- Loading datasets...\<newline>''] else []) @
         [LoadDataset (argv_at args 0), LoadDataset (argv_at args 1)] @
         fst (coordinate fuel env cfg testing),
         snd (coordinate fuel env cfg testing)))"
proof -
  consider (bad) "getopt_loop name default_config opts = ([usage name], Inl (Exit 1))"
    | (ok) cfg where "getopt_loop name default_config opts = ([], Inr cfg)"
    using getopt_loop_cases [of name default_config opts] by blast
  then show ?thesis
  proof cases
    case bad
    then show ?thesis by (simp add: main_steps_def usage_def)
  next
    case ok
    show ?thesis
    proof (cases "args = []")
      case True
      with ok show ?thesis by (simp add: main_steps_def)
    next
      case False
      from select_metric_cases [of "dist_metric cfg"] show ?thesis
      proof
        assume "\<exists>msg. select_metric (dist_metric cfg) = ([Stderr msg], Inl (Exit 1))"
        with ok False show ?thesis by (auto simp: main_steps_def)
      next
        assume "\<exists>m. select_metric (dist_metric cfg) = ([], Inr m)"
        then obtain m where m: "select_metric (dist_metric cfg) = ([], Inr m)" ..
        from load_cases [of env "argv_at args 0"] show ?thesis
        proof
          assume "\<exists>msg. load env (argv_at args 0) =
              ([LoadDataset (argv_at args 0), Stderr msg], Inl (Exit 1))"
          with ok False m show ?thesis
            by (auto simp: main_steps_def when_verbose_def ret_def)
        next
          assume "\<exists>ds. load_dataset env (argv_at args 0) = Some ds \<and>
              load env (argv_at args 0) = ([LoadDataset (argv_at args 0)], Inr ds)"
          then obtain training where
            tr: "load env (argv_at args 0) = ([LoadDataset (argv_at args 0)], Inr training)"
            by blast
          from load_cases [of env "argv_at args 1"] show ?thesis
          proof
            assume "\<exists>msg. load env (argv_at args 1) =
                ([LoadDataset (argv_at args 1), Stderr msg], Inl (Exit 1))"
            with ok False m tr show ?thesis
              by (auto simp: main_steps_def when_verbose_def ret_def)
          next
            assume "\<exists>ds. load_dataset env (argv_at args 1) = Some ds \<and>
                load env (argv_at args 1) = ([LoadDataset (argv_at args 1)], Inr ds)"
            then obtain testing where
              te: "load_dataset env (argv_at args 1) = Some testing"
                "load env (argv_at args 1) = ([LoadDataset (argv_at args 1)], Inr testing)"
              by blast
            have "main_steps fuel env name opts args =
              ((if verbose cfg \<noteq> 0 then [Stderr ''- Loading datasets...\<newline>''] else []) @
               [LoadDataset (argv_at args 0), LoadDataset (argv_at args 1)] @
               fst (coordinate fuel env cfg testing),
               snd (coordinate fuel env cfg testing))"
              using ok False m tr te(2)
              by (simp add: main_steps_def when_verbose_def ret_def)
            with ok te(1) show ?thesis by blast
          qed
        qed
      qed
    qed
  qed
qed

lemma coordinate_Inr:
  assumes "snd (coordinate fuel env cfg testing) = Inr r"
  shows "\<exists>dtr s ctr tot. dispatch_phase env cfg testing = (dtr, Inr s) \<and>
           collect_loop fuel env cfg 0 0 = (ctr, Inr tot) \<and>
           snd (wait_loop env cfg 0) = Inr ()"
  using assms
  by (cases "dispatch_phase env cfg testing"; cases "collect_loop fuel env cfg 0 0")
    (auto simp: coordinate_def collect_and_report_def snd_seq when_verbose_def ret_def split: sum.splits if_splits)

text \<open>What \<^verbatim>\<open>%d\<close> prints is the decimal numeral of the value: \<^verbatim>\<open>atoi\<close> reads it back.\<close>

lemma digit_char:
  assumes "k < 10"
  shows "isdigit (''0123456789'' ! k) \<and> of_char (''0123456789'' ! k) = 48 + int k"
proof -
  from assms consider "k = 0" | "k = 1" | "k = 2" | "k = 3" | "k = 4" | "k = 5" | "k = 6"
    | "k = 7" | "k = 8" | "k = 9"
    by (auto simp: less_Suc_eq eval_nat_numeral)
  then show ?thesis
    by cases (simp_all add: isdigit_def)
qed

lemma isdigit_plain: "isdigit c \<Longrightarrow> \<not> isspace c \<and> c \<noteq> CHR ''-'' \<and> c \<noteq> CHR ''+''"
  by (auto simp: isdigit_def isspace_def)

lemma digits_value_append:
  "\<forall>c\<in>set xs. isdigit c \<Longrightarrow>
   digits_value acc (xs @ ys) = digits_value (digits_value acc xs) ys"
  by (induction xs arbitrary: acc) simp_all

lemma show_nat_digits: "show_nat n \<noteq> [] \<and> (\<forall>c\<in>set (show_nat n). isdigit c)"
proof (induction n rule: show_nat.induct)
  case (1 n)
  show ?case
  proof (cases "n < 10")
    case True
    with digit_char [of n] show ?thesis by (simp add: show_nat.simps [of n])
  next
    case False
    with "1.IH" digit_char [of "n mod 10"] show ?thesis
      by (simp add: show_nat.simps [of n])
  qed
qed

lemma digits_value_show_nat: "digits_value 0 (show_nat n) = int n"
proof (induction n rule: show_nat.induct)
  case (1 n)
  show ?case
  proof (cases "n < 10")
    case True
    with digit_char [of n] show ?thesis by (simp add: show_nat.simps [of n])
  next
    case False
    have "digits_value 0 (show_nat (n div 10) @ [''0123456789'' ! (n mod 10)]) =
        digits_value (int (n div 10)) [''0123456789'' ! (n mod 10)]"
      using show_nat_digits [of "n div 10"] "1.IH" [OF False]
      by (simp add: digits_value_append)
    also have "\<dots> = int (n div 10) * 10 + int (n mod 10)"
      using digit_char [of "n mod 10"] by simp
    also have "\<dots> = int n"
      by (simp add: zdiv_int zmod_int)
    finally show ?thesis
      using False by (simp add: show_nat.simps [of n])
  qed
qed

lemma atoi_show_int: "atoi (show_int i) = i"
proof -
  have nat: "atoi (show_nat n) = int n" for n
  proof -
    obtain c cs where s: "show_nat n = c # cs" and c: "isdigit c"
      using show_nat_digits [of n] by (cases "show_nat n") auto
    from digits_value_show_nat [of n] s isdigit_plain [OF c] show ?thesis
      by (simp add: atoi_def)
  qed
  show ?thesis
  proof (cases "i < 0")
    case True
    have "atoi (CHR ''-'' # show_nat (nat (- i))) = - digits_value 0 (show_nat (nat (- i)))"
      by (simp add: atoi_def isspace_def)
    with True show ?thesis
      by (simp add: show_int_def digits_value_show_nat)
  next
    case False
    with nat [of "nat i"] show ?thesis by (simp add: show_int_def)
  qed
qed

text \<open>C3, as the code has it: a run of the coordinator (the process in which \<^verbatim>\<open>fork\<close>
  never returns 0) that ends with status 0 has written to standard output the total as
  a decimal integer on the last line. Without \<^verbatim>\<open>-v\<close> that is the only line. With \<^verbatim>\<open>-v\<close>
  three lines gated by \<^verbatim>\<open>verbose\<close> come before it on standard output, since they are
  printed with \<^verbatim>\<open>printf\<close>; only the line about loading goes to the error stream.\<close>

theorem stdout_of_successful_run:
  assumes "main fuel env name opts args = (tr, Exit 0)" and "\<forall>i. fork_ret env i \<noteq> 0"
  shows "\<exists>cfg ctr tot.
           getopt_loop name default_config opts = ([], Inr cfg) \<and>
           collect_loop fuel env cfg 0 0 = (ctr, Inr tot) \<and>
           stdout_of tr =
             (if verbose cfg \<noteq> 0
              then [''- Creating children ...\<newline>'', ''- Waiting for children...\<newline>'',
                    ''Number of correct predictions: '' @ show_int tot @ ''\<newline>'']
              else []) @
             [show_int tot @ ''\<newline>''] \<and>
           atoi (show_int tot) = tot"
proof -
  from assms(1) have ms: "fst (main_steps fuel env name opts args) = tr"
    and out: "snd (main_steps fuel env name opts args) = Inl (Exit 0) \<or>
         snd (main_steps fuel env name opts args) = Inr 0"
    by (auto simp: main_def split: prod.splits sum.splits)
  from main_steps_cases [of fuel env name opts args] out obtain cfg testing where
    cfg: "getopt_loop name default_config opts = ([], Inr cfg)" and
    steps: "main_steps fuel env name opts args =
        ((if verbose cfg \<noteq> 0 then [Stderr ''- Loading datasets...\<newline>''] else []) @
         [LoadDataset (argv_at args 0), LoadDataset (argv_at args 1)] @
         fst (coordinate fuel env cfg testing),
         snd (coordinate fuel env cfg testing))"
    by auto
  have "snd (coordinate fuel env cfg testing) \<noteq> Inl (Exit 0)"
    using coordinate_outcome [of fuel env cfg testing "Exit 0"] assms(2) by auto
  with out steps have ok: "snd (coordinate fuel env cfg testing) = Inr 0"
    by simp
  from coordinate_Inr [OF ok] obtain dtr s ctr tot where
    d: "dispatch_phase env cfg testing = (dtr, Inr s)" and
    c: "collect_loop fuel env cfg 0 0 = (ctr, Inr tot)" and
    w: "snd (wait_loop env cfg 0) = Inr ()"
    by blast
  have d0: "stdout_of dtr = []"
    using dispatch_phase_events [of env cfg testing] d by (simp add: dispatch_event_quiet)
  have c0: "stdout_of ctr = []"
    using collect_loop_events [of fuel env cfg 0 0] c by (simp add: collect_event_quiet)
  have w0: "stdout_of (fst (wait_loop env cfg 0)) = []"
    using wait_loop_events [of env cfg 0] by (simp add: wait_event_quiet)
  have tr: "tr = (if verbose cfg \<noteq> 0 then [Stderr ''- Loading datasets...\<newline>''] else []) @
         [LoadDataset (argv_at args 0), LoadDataset (argv_at args 1)] @
         fst (coordinate fuel env cfg testing)"
    using ms steps by simp
  have "stdout_of tr =
             (if verbose cfg \<noteq> 0
              then [''- Creating children ...\<newline>'', ''- Waiting for children...\<newline>'',
                    ''Number of correct predictions: '' @ show_int tot @ ''\<newline>'']
              else []) @
             [show_int tot @ ''\<newline>'']"
    unfolding tr by (simp add: coordinate_after_collect [OF d c] d0 c0 w0 w)
  with cfg c atoi_show_int [of tot] show ?thesis by blast
qed

theorem stdout_of_successful_run_witness:
  "snd (main 1 (example_env (\<lambda>i j. (4, 2)) (\<lambda>i. (1, Exited 0))) ''classifier'' []
          [''train'', ''test'']) = Exit 0 \<and>
   (\<forall>i. fork_ret (example_env (\<lambda>i j. (4, 2)) (\<lambda>i. (1, Exited 0))) i \<noteq> 0) \<and>
   stdout_of (fst (main 1 (example_env (\<lambda>i j. (4, 2)) (\<lambda>i. (1, Exited 0))) ''classifier'' []
          [''train'', ''test''])) = [''2\<newline>''] \<and>
   (\<exists>cfg ctr tot.
      getopt_loop ''classifier'' default_config [] = ([], Inr cfg) \<and>
      collect_loop 1 (example_env (\<lambda>i j. (4, 2)) (\<lambda>i. (1, Exited 0))) cfg 0 0 =
        (ctr, Inr tot) \<and>
      stdout_of (fst (main 1 (example_env (\<lambda>i j. (4, 2)) (\<lambda>i. (1, Exited 0))) ''classifier''
          [] [''train'', ''test''])) =
        (if verbose cfg \<noteq> 0
         then [''- Creating children ...\<newline>'', ''- Waiting for children...\<newline>'',
               ''Number of correct predictions: '' @ show_int tot @ ''\<newline>'']
         else []) @
        [show_int tot @ ''\<newline>''] \<and>
      atoi (show_int tot) = tot)"
proof -
  let ?E = "example_env (\<lambda>i j. (4, 2)) (\<lambda>i. (1, Exited 0))"
  let ?run = "main 1 ?E ''classifier'' [] [''train'', ''test'']"
  have run: "?run = (fst ?run, Exit 0)"
    by (simp add: run_defs)
  have parent: "\<forall>i. fork_ret ?E i \<noteq> 0"
    by (simp add: example_env_def)
  have out: "stdout_of (fst ?run) = [''2\<newline>'']"
    by (simp add: run_defs)
  from run have "snd ?run = Exit 0"
    by (metis snd_conv)
  with parent out stdout_of_successful_run [OF run parent] show ?thesis
    by blast
qed

text \<open>C3 as stated fails: with \<^verbatim>\<open>-v\<close> a successful run writes four lines to standard
  output, three of them diagnostic.\<close>

theorem verbose_stdout_counterexample:
  "main 1 (example_env (\<lambda>i j. (4, 2)) (\<lambda>i. (1, Exited 0))) ''classifier'' [(CHR ''v'', [])]
     [''train'', ''test''] =
     ([Stderr ''- Loading datasets...\<newline>'',
       LoadDataset (Some ''train''), LoadDataset (Some ''test''),
       Stdout ''- Creating children ...\<newline>'',
       Pipe (c_to_p 0), Pipe (p_to_c 0), Write (p_to_c 0) 0, Write (p_to_c 0) 7,
       Close (p_to_c 0) WriteEnd, Fork 0, Close (p_to_c 0) ReadEnd,
       Close (c_to_p 0) WriteEnd, Read 0, Close (c_to_p 0) ReadEnd,
       Stdout ''- Waiting for children...\<newline>'', Wait,
       Stdout ''Number of correct predictions: 2\<newline>'',
       Stdout ''2\<newline>'', FreeDataset, FreeDataset], Exit 0) \<and>
   stdout_of (fst (main 1 (example_env (\<lambda>i j. (4, 2)) (\<lambda>i. (1, Exited 0))) ''classifier''
     [(CHR ''v'', [])] [''train'', ''test''])) =
     [''- Creating children ...\<newline>'', ''- Waiting for children...\<newline>'',
      ''Number of correct predictions: 2\<newline>'', ''2\<newline>'']"
  by (simp add: run_defs)

subsection \<open>The order of dispatch and collection\<close>

lemma split_after:
  "xs @ ys = a @ e # b \<Longrightarrow> P e \<Longrightarrow> \<forall>x\<in>set xs. \<not> P x \<Longrightarrow>
   \<exists>a'. a = xs @ a' \<and> ys = a' @ e # b"
proof (induction xs arbitrary: a)
  case Nil
  then show ?case by simp
next
  case (Cons x xs)
  show ?case
  proof (cases a)
    case Nil
    with Cons.prems show ?thesis by auto
  next
    case (Cons y a'')
    with Cons.prems have "xs @ ys = a'' @ e # b" and "x = y" by simp_all
    from Cons.IH [OF this(1) Cons.prems(2)] Cons.prems(3) Cons \<open>x = y\<close>
    show ?thesis by auto
  qed
qed

lemma split_before:
  "xs @ ys = a @ e # b \<Longrightarrow> P e \<Longrightarrow> \<forall>y\<in>set ys. \<not> P y \<Longrightarrow>
   \<exists>c. xs = a @ e # c \<and> b = c @ ys"
proof (induction xs arbitrary: a)
  case Nil
  then have "e \<in> set ys" by (metis append_Nil in_set_conv_decomp)
  with Nil show ?case by blast
next
  case (Cons x xs)
  show ?case
  proof (cases a)
    case Nil
    with Cons.prems show ?thesis by auto
  next
    case (Cons y a'')
    with Cons.prems have "xs @ ys = a'' @ e # b" and "x = y" by simp_all
    from Cons.IH [OF this(1) Cons.prems(2,3)] Cons \<open>x = y\<close>
    show ?thesis by auto
  qed
qed

lemma split_unique:
  assumes "xs @ e # ys = a @ e' # c" and "P e'"
    and "\<forall>x\<in>set xs. \<not> P x" and "\<forall>y\<in>set ys. \<not> P y"
  shows "a = xs \<and> e' = e \<and> c = ys"
proof -
  from split_after [OF assms(1,2,3)] obtain a' where
    a: "a = xs @ a'" and r: "e # ys = a' @ e' # c"
    by blast
  show ?thesis
  proof (cases a')
    case Nil
    with a r show ?thesis by simp
  next
    case (Cons z zs)
    with r have "ys = zs @ e' # c" by simp
    then have "e' \<in> set ys" by simp
    with assms(2,4) show ?thesis by blast
  qed
qed

lemma written_to_none: "\<forall>e\<in>set tr. \<not> is_write e \<Longrightarrow> written_to pid tr = []"
  by (induction pid tr rule: written_to.induct) auto

lemma filter_fork_none: "\<forall>e\<in>set tr. \<not> is_fork e \<Longrightarrow> filter is_fork tr = []"
  by (induction tr) auto

lemma dispatch_loop_forks:
  "dispatch_loop env cfg T b i s = (tr, Inr s') \<Longrightarrow>
   filter is_fork tr = map Fork [i..<nat (num_procs cfg)]"
proof (induction env cfg T b i s arbitrary: tr s' rule: dispatch_loop.induct)
  case (1 env cfg T b i s)
  show ?case
  proof (cases "int i < num_procs cfg")
    case False
    then have "nat (num_procs cfg) \<le> i" by linarith
    with False "1.prems" show ?thesis
      by (auto simp: dispatch_loop_done)
  next
    case True
    with "1.prems" have
      "seq (dispatch_one env cfg T b i s) (dispatch_loop env cfg T b (Suc i)) = (tr, Inr s')"
      by (simp add: dispatch_loop_step)
    from seq_eq_Inr [OF this] obtain tr1 s1 tr2 where
      one: "dispatch_one env cfg T b i s = (tr1, Inr s1)" and
      rest: "dispatch_loop env cfg T b (Suc i) s1 = (tr2, Inr s')" and
      tr: "tr = tr1 @ tr2"
      by blast
    have i: "i < nat (num_procs cfg)" using True by simp
    from dispatch_one_Inr [OF one] "1.IH" [OF True rest] tr i show ?thesis
      by (simp add: upt_conv_Cons)
  qed
qed

lemma late_events:
  "\<forall>e\<in>set (fst (collect_and_report fuel env cfg)). \<not> is_write e \<and> \<not> is_fork e"
proof -
  have c: "\<forall>e\<in>set (fst (collect_loop fuel env cfg 0 0)). \<not> is_write e \<and> \<not> is_fork e"
    using collect_loop_events [of fuel env cfg 0 0] collect_event_quiet by blast
  have w: "\<forall>e\<in>set (fst (wait_loop env cfg 0)). \<not> is_write e \<and> \<not> is_fork e"
    using wait_loop_events [of env cfg 0] wait_event_quiet by blast
  show ?thesis
    unfolding collect_and_report_def
    by (intro seq_events c w) (simp_all add: when_verbose_def ret_def)
qed

lemma coordinate_shape:
  "fst (coordinate fuel env cfg testing) =
     ((if verbose cfg \<noteq> 0 then [Stdout ''- Creating children ...\<newline>''] else []) @
      fst (dispatch_phase env cfg testing)) @
     (case snd (dispatch_phase env cfg testing) of
        Inl out \<Rightarrow> [] | Inr u \<Rightarrow> fst (collect_and_report fuel env cfg))"
  by (simp add: coordinate_def fst_seq when_verbose_def ret_def)

text \<open>C8: wherever a \<^verbatim>\<open>read\<close> of a result stands in the trace of the coordinator, every
  one of the \<open>p\<close> workers has been sent its partition message and has been forked before
  it, and neither a write of a partition message nor a \<^verbatim>\<open>fork\<close> comes after it:
  dispatch and collection are two phases that do not interleave.\<close>

theorem reads_after_dispatch:
  assumes "fst (coordinate fuel env cfg testing) = a @ Read i # b"
    and "T = num_items testing" and "p = num_procs cfg"
  shows "(\<forall>k<nat p. written_to (p_to_c k) a = [planned_start cfg T k, planned_N cfg T k]) \<and>
         filter is_fork a = map Fork [0..<nat p] \<and>
         (\<forall>e\<in>set b. \<not> is_write e \<and> \<not> is_fork e)"
proof -
  let ?V = "if verbose cfg \<noteq> 0 then [Stdout ''- Creating children ...\<newline>''] else []"
  let ?D = "dispatch_phase env cfg testing"
  let ?late = "case snd ?D of Inl out \<Rightarrow> [] | Inr u \<Rightarrow> fst (collect_and_report fuel env cfg)"
  note shape = coordinate_shape [of fuel env cfg testing]
  have early: "\<forall>e\<in>set (?V @ fst ?D). \<not> is_read e"
    using dispatch_phase_events [of env cfg testing] dispatch_event_quiet by auto
  from split_after [of "?V @ fst ?D" ?late a "Read i" b is_read] shape assms(1) early
  obtain a' where a: "a = (?V @ fst ?D) @ a'" and late: "?late = a' @ Read i # b"
    by auto
  from late obtain s where s: "snd ?D = Inr s"
    and R: "fst (collect_and_report fuel env cfg) = a' @ Read i # b"
    by (cases "snd ?D") auto
  from s have d: "?D = (fst ?D, Inr s)"
    by (metis prod.collapse)
  note loop = dispatch_phase_Inr [OF d]
  have quiet: "\<forall>e\<in>set (a' @ Read i # b). \<not> is_write e \<and> \<not> is_fork e"
    using late_events [of fuel env cfg] R by simp
  then have a': "written_to pid a' = []" "filter is_fork a' = []" for pid
    by (simp_all add: written_to_none filter_fork_none)
  have V: "written_to pid ?V = []" "filter is_fork ?V = []" for pid
    by simp_all
  have w: "\<forall>k<nat p. written_to (p_to_c k) a = [planned_start cfg T k, planned_N cfg T k]"
    using dispatch_loop_Inr [OF conjunct2 [OF loop]] assms(2,3)
    by (simp add: a a' planned_start_def planned_N_def atLeast0LessThan)
  have f: "filter is_fork a = map Fork [0..<nat p]"
    using dispatch_loop_forks [OF conjunct2 [OF loop]] assms(3)
    by (simp add: a a')
  from w f quiet show ?thesis by simp
qed

theorem reads_after_dispatch_witness:
  "fst (coordinate 1 (example_env (\<lambda>i j. (4, 2)) (\<lambda>i. (1, Exited 0)))
          (default_config\<lparr>num_procs := 2\<rparr>) \<lparr>num_items = 7\<rparr>) =
     [Pipe (c_to_p 0), Pipe (p_to_c 0), Write (p_to_c 0) 0, Write (p_to_c 0) 4,
      Close (p_to_c 0) WriteEnd, Fork 0, Close (p_to_c 0) ReadEnd, Close (c_to_p 0) WriteEnd,
      Pipe (c_to_p 1), Pipe (p_to_c 1), Write (p_to_c 1) 4, Write (p_to_c 1) 3,
      Close (p_to_c 1) WriteEnd, Fork 1, Close (p_to_c 1) ReadEnd, Close (c_to_p 1) WriteEnd] @
     Read 0 #
     [Close (c_to_p 0) ReadEnd, Read 1, Close (c_to_p 1) ReadEnd, Wait, Wait,
      Stdout ''4\<newline>'', FreeDataset, FreeDataset] \<and>
   filter is_fork
     [Pipe (c_to_p 0), Pipe (p_to_c 0), Write (p_to_c 0) 0, Write (p_to_c 0) 4,
      Close (p_to_c 0) WriteEnd, Fork 0, Close (p_to_c 0) ReadEnd, Close (c_to_p 0) WriteEnd,
      Pipe (c_to_p 1), Pipe (p_to_c 1), Write (p_to_c 1) 4, Write (p_to_c 1) 3,
      Close (p_to_c 1) WriteEnd, Fork 1, Close (p_to_c 1) ReadEnd, Close (c_to_p 1) WriteEnd] =
     map Fork [0..<nat 2] \<and>
   planned_start (default_config\<lparr>num_procs := 2\<rparr>) 7 1 = 4 \<and>
   planned_N (default_config\<lparr>num_procs := 2\<rparr>) 7 1 = 3"
  using reads_after_dispatch [of 1 "example_env (\<lambda>i j. (4, 2)) (\<lambda>i. (1, Exited 0))"
      "default_config\<lparr>num_procs := 2\<rparr>" "\<lparr>num_items = 7\<rparr>"
      "[Pipe (c_to_p 0), Pipe (p_to_c 0), Write (p_to_c 0) 0, Write (p_to_c 0) 4,
        Close (p_to_c 0) WriteEnd, Fork 0, Close (p_to_c 0) ReadEnd, Close (c_to_p 0) WriteEnd,
        Pipe (c_to_p 1), Pipe (p_to_c 1), Write (p_to_c 1) 4, Write (p_to_c 1) 3,
        Close (p_to_c 1) WriteEnd, Fork 1, Close (p_to_c 1) ReadEnd,
        Close (c_to_p 1) WriteEnd]" 0
      "[Close (c_to_p 0) ReadEnd, Read 1, Close (c_to_p 1) ReadEnd, Wait, Wait,
        Stdout ''4\<newline>'', FreeDataset, FreeDataset]" 7 2]
  by (simp add: run_defs planned_start_def planned_N_def eval_nat_numeral lessThan_Suc
      upt_conv_Cons)

subsection \<open>The message is in the pipe before the child exists\<close>

lemma dispatch_one_trace:
  "(\<forall>e\<in>set (fst (dispatch_one env cfg T b i s)). \<not> is_fork e) \<or>
   (\<exists>rest. fst (dispatch_one env cfg T b i s) =
      [Pipe (c_to_p i), Pipe (p_to_c i), Write (p_to_c i) s,
       Write (p_to_c i) (partition_N T (num_procs cfg) b (int i)),
       Close (p_to_c i) WriteEnd] @ Fork i # rest \<and>
      (\<forall>e\<in>set rest. \<not> is_fork e \<and> \<not> is_write e))"
  by (simp add: dispatch_one_def child_branch_def checked_def fst_seq snd_seq Let_def ret_def
      split: option.splits)

lemma dispatch_one_writes:
  "pid \<noteq> p_to_c i \<Longrightarrow> written_to pid (fst (dispatch_one env cfg T b i s)) = []"
  by (simp add: dispatch_one_def child_branch_def checked_def fst_seq snd_seq Let_def ret_def
      split: option.splits)

lemma dispatch_loop_writes:
  "k < i \<Longrightarrow> written_to (p_to_c k) (fst (dispatch_loop env cfg T b i s)) = []"
proof (induction env cfg T b i s rule: dispatch_loop.induct)
  case (1 env cfg T b i s)
  show ?case
  proof (cases "int i < num_procs cfg")
    case False
    then show ?thesis by (simp add: dispatch_loop_done)
  next
    case True
    from "1.prems" have "k < Suc i" by simp
    note ih = "1.IH" [OF True this]
    from "1.prems" have "p_to_c k \<noteq> p_to_c i" by simp
    note one = dispatch_one_writes [OF this, of env cfg T b s]
    show ?thesis
      unfolding dispatch_loop_step [OF True]
      by (simp add: fst_seq one ih split: sum.splits)
  qed
qed


lemma split_cases:
  "xs @ ys = a @ e # b \<Longrightarrow>
   (\<exists>c. xs = a @ e # c \<and> b = c @ ys) \<or> (\<exists>c. a = xs @ c \<and> ys = c @ e # b)"
  by (auto simp: append_eq_append_conv2 append_eq_Cons_conv Cons_eq_append_conv)

lemma dispatch_loop_fork:
  "fst (dispatch_loop env cfg T b0 i s) = a @ Fork k # b \<Longrightarrow>
   i \<le> k \<and> int k < num_procs cfg \<and>
   (\<exists>a'. a = a' @
      [Pipe (c_to_p k), Pipe (p_to_c k),
       Write (p_to_c k) (s + (\<Sum>j = i..<k. partition_N T (num_procs cfg) b0 (int j))),
       Write (p_to_c k) (partition_N T (num_procs cfg) b0 (int k)),
       Close (p_to_c k) WriteEnd] \<and>
      written_to (p_to_c k) a' = []) \<and>
   written_to (p_to_c k) b = []"
proof (induction env cfg T b0 i s arbitrary: a b rule: dispatch_loop.induct)
  case (1 env cfg T b0 i s)
  let ?one = "dispatch_one env cfg T b0 i s"
  let ?N = "\<lambda>j. partition_N T (num_procs cfg) b0 (int j)"
  let ?t2 = "case snd ?one of Inl out \<Rightarrow> []
             | Inr s1 \<Rightarrow> fst (dispatch_loop env cfg T b0 (Suc i) s1)"
  show ?case
  proof (cases "int i < num_procs cfg")
    case False
    with "1.prems" show ?thesis by (simp add: dispatch_loop_done)
  next
    case True
    from "1.prems" have tr: "fst ?one @ ?t2 = a @ Fork k # b"
      by (simp add: dispatch_loop_step [OF True] fst_seq)
    from split_cases [OF tr] show ?thesis
    proof
      assume "\<exists>c. fst ?one = a @ Fork k # c \<and> b = c @ ?t2"
      then obtain c where one: "fst ?one = a @ Fork k # c" and b: "b = c @ ?t2"
        by blast
      from one have "\<not> (\<forall>e\<in>set (fst ?one). \<not> is_fork e)" by auto
      with dispatch_one_trace [of env cfg T b0 i s] obtain rest where
        shape: "fst ?one =
          [Pipe (c_to_p i), Pipe (p_to_c i), Write (p_to_c i) s, Write (p_to_c i) (?N i),
           Close (p_to_c i) WriteEnd] @ Fork i # rest" and
        rest: "\<forall>e\<in>set rest. \<not> is_fork e \<and> \<not> is_write e"
        by blast
      have "a = [Pipe (c_to_p i), Pipe (p_to_c i), Write (p_to_c i) s,
                 Write (p_to_c i) (?N i), Close (p_to_c i) WriteEnd] \<and>
            Fork k = Fork i \<and> c = rest"
        using shape one rest
        by (intro split_unique [where P = is_fork]) auto
      then have a: "a = [] @ [Pipe (c_to_p i), Pipe (p_to_c i), Write (p_to_c i) s,
                 Write (p_to_c i) (?N i), Close (p_to_c i) WriteEnd]"
        and k: "k = i" and c: "c = rest"
        by simp_all
      have "written_to (p_to_c i) c = []"
        using rest c by (simp add: written_to_none)
      moreover have "written_to (p_to_c i) ?t2 = []"
        by (cases "snd ?one") (simp_all add: dispatch_loop_writes)
      ultimately have "written_to (p_to_c k) b = []"
        using b k by simp
      with a k True show ?thesis by simp
    next
      assume "\<exists>c. a = fst ?one @ c \<and> ?t2 = c @ Fork k # b"
      then obtain c where a: "a = fst ?one @ c" and t2: "?t2 = c @ Fork k # b"
        by blast
      from t2 obtain s1 where s1: "snd ?one = Inr s1"
        and later: "fst (dispatch_loop env cfg T b0 (Suc i) s1) = c @ Fork k # b"
        by (cases "snd ?one") auto
      from s1 have "?one = (fst ?one, Inr s1)"
        by (metis prod.collapse)
      note o = dispatch_one_Inr [OF this]
      from "1.IH" [OF True later] obtain a' where
        k: "Suc i \<le> k" "int k < num_procs cfg" and
        c: "c = a' @ [Pipe (c_to_p k), Pipe (p_to_c k),
               Write (p_to_c k) (s1 + (\<Sum>j = Suc i..<k. ?N j)),
               Write (p_to_c k) (?N k), Close (p_to_c k) WriteEnd]" and
        a': "written_to (p_to_c k) a' = []" and
        b: "written_to (p_to_c k) b = []"
        by blast
      from k have ik: "i < k" "i \<le> k" "p_to_c k \<noteq> p_to_c i" by simp_all
      have sum: "s1 + (\<Sum>j = Suc i..<k. ?N j) = s + (\<Sum>j = i..<k. ?N j)"
        using o ik by (simp add: sum.atLeast_Suc_lessThan)
      have "a = (fst ?one @ a') @ [Pipe (c_to_p k), Pipe (p_to_c k),
               Write (p_to_c k) (s + (\<Sum>j = i..<k. ?N j)),
               Write (p_to_c k) (?N k), Close (p_to_c k) WriteEnd]"
        using a c sum by simp
      moreover have "written_to (p_to_c k) (fst ?one @ a') = []"
        using a' dispatch_one_writes [OF ik(3), of env cfg T b0 s] by simp
      ultimately show ?thesis
        using ik k b by blast
    qed
  qed
qed

text \<open>C9: wherever \<^verbatim>\<open>fork\<close> for worker \<open>i\<close> stands in the trace, the events right before
  it are the creation of the two pipes, the write of \<^verbatim>\<open>start_idx\<close>, the write of \<open>N\<close>
  and the close of the write end of the parent-to-child pipe, in this order, with the
  planned values of worker \<open>i\<close>; nothing else is written into that pipe, before or after.
  So at the \<^verbatim>\<open>fork\<close> the pipe holds exactly the pair of worker \<open>i\<close> and its write end is
  closed.\<close>

theorem message_before_fork:
  assumes "fst (coordinate fuel env cfg testing) = a @ Fork i # b"
    and "T = num_items testing"
  shows "int i < num_procs cfg \<and>
         (\<exists>a'. a = a' @
            [Pipe (c_to_p i), Pipe (p_to_c i),
             Write (p_to_c i) (planned_start cfg T i), Write (p_to_c i) (planned_N cfg T i),
             Close (p_to_c i) WriteEnd] \<and>
            written_to (p_to_c i) a' = []) \<and>
         written_to (p_to_c i) b = []"
proof -
  let ?V = "if verbose cfg \<noteq> 0 then [Stdout ''- Creating children ...\<newline>''] else []"
  let ?D = "dispatch_phase env cfg testing"
  let ?late = "case snd ?D of Inl out \<Rightarrow> [] | Inr u \<Rightarrow> fst (collect_and_report fuel env cfg)"
  have late: "\<forall>e\<in>set ?late. \<not> is_write e \<and> \<not> is_fork e"
    using late_events [of fuel env cfg] by (cases "snd ?D") simp_all
  from assms(1) have "(?V @ fst ?D) @ ?late = a @ Fork i # b"
    by (simp only: coordinate_shape)
  from split_before [OF this, of is_fork] late obtain c where
    early: "?V @ fst ?D = a @ Fork i # c" and b: "b = c @ ?late"
    by auto
  from split_after [OF early, of is_fork] obtain a1 where
    a: "a = ?V @ a1" and D: "fst ?D = a1 @ Fork i # c"
    by auto
  have loop: "fst (dispatch_loop env cfg T (T smod num_procs cfg) 0 0) = a1 @ Fork i # c"
    using D assms(2)
    by (auto simp: dispatch_phase_def from_children_len_def c_mod_def fst_seq ret_def
        split: if_splits)
  from dispatch_loop_fork [OF loop] obtain a' where
    i: "int i < num_procs cfg" and
    a1: "a1 = a' @ [Pipe (c_to_p i), Pipe (p_to_c i),
             Write (p_to_c i) (planned_start cfg T i), Write (p_to_c i) (planned_N cfg T i),
             Close (p_to_c i) WriteEnd]" and
    a': "written_to (p_to_c i) a' = []" and
    c: "written_to (p_to_c i) c = []"
    by (auto simp: planned_start_def planned_N_def atLeast0LessThan)
  have "a = (?V @ a') @ [Pipe (c_to_p i), Pipe (p_to_c i),
             Write (p_to_c i) (planned_start cfg T i), Write (p_to_c i) (planned_N cfg T i),
             Close (p_to_c i) WriteEnd]"
    using a a1 by simp
  moreover have "written_to (p_to_c i) (?V @ a') = []"
    using a' by simp
  moreover have "written_to (p_to_c i) b = []"
    using b c late by (simp add: written_to_none)
  ultimately show ?thesis
    using i by blast
qed

theorem message_before_fork_witness:
  "fst (coordinate 1 (example_env (\<lambda>i j. (4, 2)) (\<lambda>i. (1, Exited 0)))
          (default_config\<lparr>num_procs := 2\<rparr>) \<lparr>num_items = 7\<rparr>) =
     [Pipe (c_to_p 0), Pipe (p_to_c 0), Write (p_to_c 0) 0, Write (p_to_c 0) 4,
      Close (p_to_c 0) WriteEnd, Fork 0, Close (p_to_c 0) ReadEnd, Close (c_to_p 0) WriteEnd,
      Pipe (c_to_p 1), Pipe (p_to_c 1), Write (p_to_c 1) 4, Write (p_to_c 1) 3,
      Close (p_to_c 1) WriteEnd] @
     Fork 1 #
     [Close (p_to_c 1) ReadEnd, Close (c_to_p 1) WriteEnd,
      Read 0, Close (c_to_p 0) ReadEnd, Read 1, Close (c_to_p 1) ReadEnd, Wait, Wait,
      Stdout ''4\<newline>'', FreeDataset, FreeDataset] \<and>
   planned_start (default_config\<lparr>num_procs := 2\<rparr>) 7 1 = 4 \<and>
   planned_N (default_config\<lparr>num_procs := 2\<rparr>) 7 1 = 3 \<and>
   (\<exists>a'. [Pipe (c_to_p 0), Pipe (p_to_c 0), Write (p_to_c 0) 0, Write (p_to_c 0) 4,
      Close (p_to_c 0) WriteEnd, Fork 0, Close (p_to_c 0) ReadEnd, Close (c_to_p 0) WriteEnd,
      Pipe (c_to_p 1), Pipe (p_to_c 1), Write (p_to_c 1) 4, Write (p_to_c 1) 3,
      Close (p_to_c 1) WriteEnd] =
     a' @ [Pipe (c_to_p 1), Pipe (p_to_c 1), Write (p_to_c 1) 4, Write (p_to_c 1) 3,
           Close (p_to_c 1) WriteEnd] \<and>
     written_to (p_to_c 1) a' = [])"
  using message_before_fork [of 1 "example_env (\<lambda>i j. (4, 2)) (\<lambda>i. (1, Exited 0))"
      "default_config\<lparr>num_procs := 2\<rparr>" "\<lparr>num_items = 7\<rparr>"
      "[Pipe (c_to_p 0), Pipe (p_to_c 0), Write (p_to_c 0) 0, Write (p_to_c 0) 4,
        Close (p_to_c 0) WriteEnd, Fork 0, Close (p_to_c 0) ReadEnd, Close (c_to_p 0) WriteEnd,
        Pipe (c_to_p 1), Pipe (p_to_c 1), Write (p_to_c 1) 4, Write (p_to_c 1) 3,
        Close (p_to_c 1) WriteEnd]" 1
      "[Close (p_to_c 1) ReadEnd, Close (c_to_p 1) WriteEnd,
        Read 0, Close (c_to_p 0) ReadEnd, Read 1, Close (c_to_p 1) ReadEnd, Wait, Wait,
        Stdout ''4\<newline>'', FreeDataset, FreeDataset]" 7]
  by (simp add: run_defs planned_start_def planned_N_def eval_nat_numeral lessThan_Suc)

end
